theory Spec2Isabelle
  imports Main
begin


section \<open>Substring search over the cell grid\<close>

text \<open>
  The two search routines of the array-based editor walk a grid of cell texts
  (\<^verbatim>\<open>csvlines [][]string\<close>) in reading order.  Row and column indices are Go
  \<^verbatim>\<open>int\<close>s, modelled as \<^typ>\<open>int\<close>; an index expression outside its slice makes the
  Go runtime panic, which is the result \<open>None\<close> here.
\<close>

text \<open>Go's \<^verbatim>\<open>strings.Contains(s, substr)\<close>: \<open>substr\<close> occurs somewhere within \<open>s\<close>.\<close>

fun Contains :: "string \<Rightarrow> string \<Rightarrow> bool" where
  "Contains [] substr = (substr = [])"
| "Contains (x # xs) substr =
     (take (length substr) (x # xs) = substr \<or> Contains xs substr)"


definition minInt :: int where
  "minInt = - 9223372036854775808"



text \<open>
  The inner loop of \<^verbatim>\<open>searchForward\<close>:
  \<^verbatim>\<open>for c < len(csvlines[r]) { if strings.Contains(csvlines[r][c], target) { return true, r, c }; c++ }\<close>.
  The result is \<open>Some (True, c)\<close> when a cell matched, \<open>Some (False, c)\<close> when the
  loop ran off the row, and \<open>None\<close> when \<open>c\<close> is a negative index.
\<close>

function forwardInRow :: "string list \<Rightarrow> int \<Rightarrow> string \<Rightarrow> (bool \<times> int) option" where
  "forwardInRow row c target =
     (if c < int (length row) then
        (if c < 0 then None
         else if Contains (row ! nat c) target then Some (True, c)
         else forwardInRow row (c + 1) target)
      else Some (False, c))"
  by pat_completeness auto
termination
  by (relation "measure (\<lambda>(row, c, target). nat (int (length row) - c))") auto

text \<open>
  The outer loop of \<^verbatim>\<open>searchForward\<close>:
  \<^verbatim>\<open>for r < len(csvlines) { ...inner loop...; r++; c = 0 }; return false, r, c\<close>.
\<close>

function forwardFrom :: "string list list \<Rightarrow> int \<Rightarrow> int \<Rightarrow> string \<Rightarrow> (bool \<times> int \<times> int) option" where
  "forwardFrom csvlines r c target =
     (if r < int (length csvlines) then
        (if r < 0 then None
         else (case forwardInRow (csvlines ! nat r) c target of
                 None \<Rightarrow> None
               | Some (True, c') \<Rightarrow> Some (True, r, c')
               | Some (False, c') \<Rightarrow> forwardFrom csvlines (r + 1) 0 target))
      else Some (False, r, c))"
  by pat_completeness auto
termination
  by (relation "measure (\<lambda>(csvlines, r, c, target). nat (int (length csvlines) - r))") auto


text \<open>
  The inner loop of \<^verbatim>\<open>searchBackward\<close>:
  \<^verbatim>\<open>for c >= 0 { if strings.Contains(csvlines[r][c], target) { return true, r, c }; c-- }\<close>,
  for a row \<open>r\<close> that exists.
\<close>

function backwardInRow :: "string list \<Rightarrow> int \<Rightarrow> string \<Rightarrow> (bool \<times> int) option" where
  "backwardInRow row c target =
     (if 0 \<le> c then
        (if int (length row) \<le> c then None
         else if Contains (row ! nat c) target then Some (True, c)
         else backwardInRow row (c - 1) target)
      else Some (False, c))"
  by pat_completeness auto
termination
  by (relation "measure (\<lambda>(row, c, target). nat (c + 1))") auto

text \<open>
  The outer loop of \<^verbatim>\<open>searchBackward\<close>:
  \<^verbatim>\<open>for { ...inner loop...; r--; if r < 0 { return false, r, c }; c = len(csvlines[r]) - 1 }\<close>.
  The row \<^verbatim>\<open>csvlines[r]\<close> is only read when the inner loop is entered (\<open>0 \<le> c\<close>) and
  after \<^verbatim>\<open>r--\<close>; a slice is never longer than \<open>maxInt\<close>, so the wrapped index that
  \<^verbatim>\<open>r--\<close> produces at \<open>minInt\<close> is out of range.
\<close>

function backwardFrom :: "string list list \<Rightarrow> int \<Rightarrow> int \<Rightarrow> string \<Rightarrow> (bool \<times> int \<times> int) option" where
  "backwardFrom csvlines r c target =
     (if 0 \<le> c \<and> (r < 0 \<or> int (length csvlines) \<le> r) then None
      else (case backwardInRow (if 0 \<le> c then csvlines ! nat r else []) c target of
              None \<Rightarrow> None
            | Some (True, c') \<Rightarrow> Some (True, r, c')
            | Some (False, c') \<Rightarrow>
                (if r = minInt then None
                 else if r - 1 < 0 then Some (False, r - 1, c')
                 else if int (length csvlines) \<le> r - 1 then None
                 else backwardFrom csvlines (r - 1)
                        (int (length (csvlines ! nat (r - 1))) - 1) target)))"
  by pat_completeness auto
termination
  by (relation "measure (\<lambda>(csvlines, r, c, target). nat r)") auto






section \<open>Cells, rows and the mode\<close>

text \<open>
  The package \<^verbatim>\<open>uncsv\<close> (earlier \<^verbatim>\<open>csv\<close>) that declares \<^verbatim>\<open>Mode\<close>, \<^verbatim>\<open>Cell\<close> and \<^verbatim>\<open>Row\<close> is
  used by every source file but is not among them.  Of \<^verbatim>\<open>Mode\<close> the editor reads the
  field delimiter and the default line terminator.
\<close>

record Mode =
  Comma :: char
  DefaultTerm :: string

text \<open>
  Modelled from the spec: the type \<^verbatim>\<open>uncsv.Cell\<close> is missing.  A cell has its decoded
  text, its original source representation, a modified flag and a quoted flag.
\<close>

record Cell =
  Text :: string
  Original :: string
  Modified :: bool
  IsQuoted :: bool

text \<open>
  Modelled from the spec: the type \<^verbatim>\<open>uncsv.Row\<close> is missing.  A row is an ordered sequence
  of cells plus the line terminator that followed it in the source: LF, CRLF, or empty
  for a last line without terminator.
\<close>

record Row =
  Cell :: "Cell list"
  Term :: string

definition quoteChar :: char where
  "quoteChar = CHR 0x22"

definition LF :: char where
  "LF = CHR 0x0A"

definition CR :: char where
  "CR = CHR 0x0D"

text \<open>
  Modelled from the spec: decoding of a field (\<^verbatim>\<open>uncsv\<close>, missing) strips the quoting and
  unescapes doubled quote characters inside a quoted part; an unterminated quote is
  tolerated, the remaining text is taken literally.  The flag says whether the scan is
  inside a quoted part.
\<close>

fun decodeText :: "bool \<Rightarrow> string \<Rightarrow> string" where
  "decodeText inQuote [] = []"
| "decodeText False (c # cs) =
     (if c = quoteChar then decodeText True cs else c # decodeText False cs)"
| "decodeText True (c # cs) =
     (if c = quoteChar then
        (case cs of
           [] \<Rightarrow> []
         | d # ds \<Rightarrow> if d = quoteChar then d # decodeText True ds else decodeText False cs)
      else c # decodeText True cs)"

text \<open>
  Modelled from the spec: \<^verbatim>\<open>decode(sourceBytes, mode) -> Cell\<close> (missing) records the
  original representation verbatim; the cell is unmodified, and quoted when its source
  is wrapped in quotes.
\<close>

definition decode :: "string \<Rightarrow> Cell" where
  "decode source =
     \<lparr>Text = decodeText False source, Original = source, Modified = False,
      IsQuoted = (source \<noteq> [] \<and> hd source = quoteChar)\<rparr>"

text \<open>
  Modelled from the spec: a new text needs quoting only if it contains the delimiter, a
  quote character, or a line break.
\<close>

definition needsQuote :: "Mode \<Rightarrow> string \<Rightarrow> bool" where
  "needsQuote mode s =
     (Comma mode \<in> set s \<or> quoteChar \<in> set s \<or> LF \<in> set s \<or> CR \<in> set s)"

text \<open>
  Modelled from the spec: \<^verbatim>\<open>setText(newText) -> Cell'\<close> (missing) marks the cell modified
  and recomputes the quoted flag.
\<close>

definition setText :: "string \<Rightarrow> Mode \<Rightarrow> Cell \<Rightarrow> Cell" where
  "setText newText mode c =
     c\<lparr>Text := newText, Modified := True, IsQuoted := needsQuote mode newText\<rparr>"

text \<open>
  Modelled from the spec: \<^verbatim>\<open>Cell.Quote\<close> (missing), the quote toggle in its "on"
  direction, forces the quoted flag on without changing the decoded text.
\<close>

definition Quote :: "Mode \<Rightarrow> Cell \<Rightarrow> Cell" where
  "Quote mode c = c\<lparr>IsQuoted := True\<rparr>"

text \<open>
  Modelled from the spec: \<^verbatim>\<open>Cell.Restore\<close> (missing) discards edits: the cell is reset to
  its original representation, unmodified.
\<close>

definition Restore :: "Mode \<Rightarrow> Cell \<Rightarrow> Cell" where
  "Restore mode c = decode (Original c)"

text \<open>The quoted form of a text: wrapped in quotes, every quote character doubled.\<close>

definition quoteText :: "string \<Rightarrow> string" where
  "quoteText s =
     quoteChar # concat (map (\<lambda>c. if c = quoteChar then [c, c] else [c]) s) @ [quoteChar]"

text \<open>
  Modelled from the spec: \<^verbatim>\<open>serialize(mode) -> bytes\<close> (\<^verbatim>\<open>Cell.SourceText\<close>, missing) emits
  the original representation verbatim if the cell is unmodified; otherwise the
  quoted or bare text as the quoted flag says.
\<close>

definition SourceText :: "Mode \<Rightarrow> Cell \<Rightarrow> string" where
  "SourceText mode c =
     (if \<not> Modified c then Original c
      else if IsQuoted c then quoteText (Text c) else Text c)"

fun joinFields :: "char \<Rightarrow> string list \<Rightarrow> string" where
  "joinFields d [] = []"
| "joinFields d [x] = x"
| "joinFields d (x # y # ys) = x @ d # joinFields d (y # ys)"

text \<open>
  Modelled from the spec: \<^verbatim>\<open>Row.Rebuild\<close> (missing) serializes a row: its cells joined by
  the delimiter, followed by the row's terminator.
\<close>

definition Rebuild :: "Mode \<Rightarrow> Row \<Rightarrow> string" where
  "Rebuild mode row = joinFields (Comma mode) (map (SourceText mode) (Cell row)) @ Term row"

definition emptyCell :: Cell where
  "emptyCell = \<lparr>Text = [], Original = [], Modified = False, IsQuoted = False\<rparr>"

text \<open>
  Modelled from the spec: \<^verbatim>\<open>uncsv.NewRow\<close> (missing).  A row always has at least one
  cell; a fresh row has one empty cell and the mode's default terminator.
\<close>

definition NewRow :: "Mode \<Rightarrow> Row" where
  "NewRow mode = \<lparr>Cell = [emptyCell], Term = DefaultTerm mode\<rparr>"

text \<open>
  Modelled from the spec: \<^verbatim>\<open>Row.Insert\<close>, \<^verbatim>\<open>Row.Replace\<close> and \<^verbatim>\<open>Row.Delete\<close> (missing) are
  the cell-level mutations within a row.  \<open>insert\<close> shifts the subsequent cells right,
  \<open>delete\<close> shifts them left, and deleting the sole remaining cell replaces it with an
  empty cell.  A column outside the row is a slice index out of range: \<open>None\<close>.
\<close>

definition insertCell :: "Row \<Rightarrow> nat \<Rightarrow> string \<Rightarrow> Mode \<Rightarrow> Row" where
  "insertCell row n newText mode =
     row\<lparr>Cell := take n (Cell row) @ setText newText mode emptyCell # drop n (Cell row)\<rparr>"

definition Insert :: "Row \<Rightarrow> int \<Rightarrow> string \<Rightarrow> Mode \<Rightarrow> Row option" where
  "Insert row col newText mode =
     (if 0 \<le> col \<and> col \<le> int (length (Cell row))
      then Some (insertCell row (nat col) newText mode) else None)"

definition Replace :: "Row \<Rightarrow> int \<Rightarrow> string \<Rightarrow> Mode \<Rightarrow> Row option" where
  "Replace row col newText mode =
     (if 0 \<le> col \<and> col < int (length (Cell row))
      then Some (row\<lparr>Cell := (Cell row)[nat col := setText newText mode (Cell row ! nat col)]\<rparr>)
      else None)"

definition Delete :: "Row \<Rightarrow> int \<Rightarrow> Mode \<Rightarrow> Row option" where
  "Delete row col mode =
     (if 0 \<le> col \<and> col < int (length (Cell row))
      then (if length (Cell row) = 1 then Replace row 0 [] mode
            else Some (row\<lparr>Cell := take (nat col) (Cell row) @ drop (Suc (nat col)) (Cell row)\<rparr>))
      else None)"

text \<open>
  The loop \<^verbatim>\<open>for len(newRow.Cell) < len(cursorRow.Cell) { newRow.Insert(0, "", mode) }\<close> that
  pads a new row when the columns are fixed.
\<close>

function fillColumns :: "Row \<Rightarrow> nat \<Rightarrow> Mode \<Rightarrow> Row" where
  "fillColumns newRow n mode =
     (if length (Cell newRow) < n then fillColumns (insertCell newRow 0 [] mode) n mode
      else newRow)"
  by pat_completeness auto
termination
  by (relation "measure (\<lambda>(newRow, n, mode). n - length (Cell newRow))")
     (auto simp: insertCell_def)

text \<open>
  \<^verbatim>\<open>isEmptyRow\<close>: a row without cells, or with a single cell whose original
  representation is empty.
\<close>

definition isEmptyRow :: "Row \<Rightarrow> bool" where
  "isEmptyRow row =
     (case Cell row of
        [] \<Rightarrow> True
      | [c] \<Rightarrow> length (Original c) \<le> 0
      | _ \<Rightarrow> False)"

text \<open>
  Modelled from the spec: the row list (\<^verbatim>\<open>_Application\<close> over \<^verbatim>\<open>container/list\<close> with its
  \<^verbatim>\<open>RowPtr\<close> handles, missing) is the ordered list of rows; a handle is the row's current
  ordinal position \<^verbatim>\<open>lnum\<close>.  \<open>insertBefore\<close> and \<open>insertAfter\<close> splice a new row adjacent to
  the handle's row, \<open>remove\<close> detaches the row, \<open>push\<close> appends at the tail.
\<close>

definition InsertAfter :: "Row list \<Rightarrow> nat \<Rightarrow> Row \<Rightarrow> Row list" where
  "InsertAfter rows n newRow = take (Suc n) rows @ newRow # drop (Suc n) rows"

definition InsertBefore :: "Row list \<Rightarrow> nat \<Rightarrow> Row \<Rightarrow> Row list" where
  "InsertBefore rows n newRow = take n rows @ newRow # drop n rows"

definition Remove :: "Row list \<Rightarrow> nat \<Rightarrow> Row list" where
  "Remove rows n = take n rows @ drop (Suc n) rows"

definition Push :: "Row list \<Rightarrow> Row \<Rightarrow> Row list" where
  "Push rows row = rows @ [row]"


section \<open>The editor's main loop\<close>

text \<open>
  Go \<^verbatim>\<open>error\<close> values the loop tells apart: \<^verbatim>\<open>io.EOF\<close>, the line editor's cancellation
  \<^verbatim>\<open>readline.CtrlC\<close>, and any other error with its message.
\<close>

datatype error = EOF | CtrlC | OtherError string

fun errorText :: "error \<Rightarrow> string" where
  "errorText EOF = ''EOF''"
| "errorText CtrlC = ''^C''"
| "errorText (OtherError m) = m"

text \<open>
  \<^verbatim>\<open>Config\<close>, with the fields the loop reads.  \<^verbatim>\<open>Mode\<close> is a pointer that may be nil;
  \<^verbatim>\<open>OnCellValidated\<close> is an optional callback from row number, column and proposed text
  to a text or an error.  \<^verbatim>\<open>KeyMap\<close> holds caller-supplied handlers; it is taken empty,
  as \<^verbatim>\<open>edit\<close> makes it when the caller supplies none, so every key reaches the built-in
  \<^verbatim>\<open>switch\<close>.
\<close>

record Config =
  Mode :: "Mode option"
  HeaderLines :: int
  FixColumn :: bool
  ReadOnly :: bool
  ProtectHeader :: bool
  OnCellValidated :: "(int \<Rightarrow> int \<Rightarrow> string \<Rightarrow> error + string) option"

text \<open>\<^verbatim>\<open>mode := cfg.Mode; if mode == nil { mode = &uncsv.Mode{} }\<close>\<close>

definition modeOf :: "Config \<Rightarrow> Mode" where
  "modeOf cfg =
     (case Mode cfg of None \<Rightarrow> \<lparr>Comma = CHR 0x00, DefaultTerm = []\<rparr> | Some m \<Rightarrow> m)"

text \<open>
  The fetch source \<^verbatim>\<open>fetch func() (*uncsv.Row, error)\<close> is a function of the caller
  (\<^verbatim>\<open>uncsv.ReadLine\<close> over the input, missing).  Modelled from the spec: it is a lazy,
  finite, non-restartable sequence, and end-of-input terminates it.  The model holds
  the results still to be delivered; once they are used up every further call
  delivers the row \<open>atEnd\<close> together with \<^verbatim>\<open>io.EOF\<close>.
\<close>

record Source =
  pending :: "(Row \<times> error option) list"
  atEnd :: Row

definition fetchCall :: "Source \<Rightarrow> (Row \<times> error option) \<times> Source" where
  "fetchCall src =
     (case pending src of
        [] \<Rightarrow> ((atEnd src, Some EOF), src)
      | x # xs \<Rightarrow> (x, src\<lparr>pending := xs\<rparr>))"

datatype direction = Forward | Backward

text \<open>
  The variables of \<^verbatim>\<open>edit\<close> that the commands read and write.  \<open>csvLines\<close> is the row
  list of \<^verbatim>\<open>_Application\<close>, \<open>cursorRow\<close> the position of the row the cursor handle refers
  to, \<open>fetch\<close> is \<open>None\<close> for nil.  \<open>writes\<close> records the documents handed to \<^verbatim>\<open>cmdWrite\<close>
  (missing), oldest first.  The viewport (\<^verbatim>\<open>startRow\<close>, \<^verbatim>\<open>startCol\<close>) and the line caches
  are left out of this state.
\<close>

record State =
  csvLines :: "Row list"
  removedRows :: "Row list"
  fetch :: "Source option"
  cursorRow :: nat
  cursorCol :: int
  lastSearch :: direction
  lastSearchRev :: direction
  lastWord :: string
  killbuffer :: string
  message :: string
  writes :: "Row list list"

text \<open>
  What the collaborators answer during one iteration: how many idle slots pass before
  the key arrives, the key, the result of \<^verbatim>\<open>pilot.ReadLine\<close> should the command open a
  text-entry dialog, the answer to \<^verbatim>\<open>YesNo\<close>, and the error of \<^verbatim>\<open>cmdWrite\<close> if any.
\<close>

record Input =
  idleSlots :: nat
  key :: string
  readLine :: "string \<times> error option"
  yesNo :: bool
  writeError :: "error option"

text \<open>
  How one iteration ends: a Go runtime panic (index out of range, nil handle),
  \<^verbatim>\<open>return nil, err\<close>, \<^verbatim>\<open>return &Result{...}, nil\<close>, or the next iteration.
\<close>

datatype outcome = Panicked | Failed error | Exited State | Continue State

definition msgReadOnly :: string where
  "msgReadOnly = ''Read Only Mode !''"

definition msgProtectHeader :: string where
  "msgProtectHeader = ''Header is protected''"

definition msgColumnFixed :: string where
  "msgColumnFixed = ''The order of Columns is fixed !''"

definition checkWriteProtect :: "Config \<Rightarrow> State \<Rightarrow> string" where
  "checkWriteProtect cfg s =
     (if ProtectHeader cfg \<and> int (cursorRow s) < HeaderLines cfg then msgProtectHeader
      else if ReadOnly cfg then msgReadOnly
      else [])"

definition checkWriteProtectAndColumn :: "Config \<Rightarrow> State \<Rightarrow> string" where
  "checkWriteProtectAndColumn cfg s =
     (if checkWriteProtect cfg s \<noteq> [] then checkWriteProtect cfg s
      else if FixColumn cfg then msgColumnFixed
      else [])"

definition validate :: "Config \<Rightarrow> int \<Rightarrow> int \<Rightarrow> string \<Rightarrow> error + string" where
  "validate cfg lnum col newText =
     (case OnCellValidated cfg of None \<Rightarrow> Inr newText | Some f \<Rightarrow> f lnum col newText)"

definition currentRow :: "State \<Rightarrow> Row" where
  "currentRow s = csvLines s ! cursorRow s"

definition setCurrentRow :: "Row \<Rightarrow> State \<Rightarrow> State" where
  "setCurrentRow row s = s\<lparr>csvLines := (csvLines s)[cursorRow s := row]\<rparr>"

text \<open>An assignment through \<^verbatim>\<open>cursorRow.Replace(col, text, mode)\<close>.\<close>

definition replaceInCurrent :: "Mode \<Rightarrow> int \<Rightarrow> string \<Rightarrow> State \<Rightarrow> outcome" where
  "replaceInCurrent mode col newText s =
     (case Replace (currentRow s) col newText mode of
        None \<Rightarrow> Panicked
      | Some row \<Rightarrow> Continue (setCurrentRow row s))"

subsection \<open>Ingestion\<close>

text \<open>
  The initial prefetch
  \<^verbatim>\<open>for i := 0; i < 100; i++ { row, err := fetch(); if err != nil { if err != io.EOF { return nil, err }; fetch = nil; if isEmptyRow(row) { break } }; app.Push(row); if err == io.EOF { break } }\<close>,
  with the number of iterations left as first argument.  The result is the error
  returned, or the new value of \<^verbatim>\<open>fetch\<close> and the rows.
\<close>

fun prefetch :: "nat \<Rightarrow> Source \<Rightarrow> Row list \<Rightarrow> error + (Source option \<times> Row list)" where
  "prefetch 0 src rows = Inr (Some src, rows)"
| "prefetch (Suc n) src rows =
     (case fetchCall src of
        ((row, Some e), src') \<Rightarrow>
          if e \<noteq> EOF then Inl e
          else if isEmptyRow row then Inr (None, rows)
          else Inr (None, Push rows row)
      | ((row, None), src') \<Rightarrow> prefetch n src' (Push rows row))"

text \<open>The state in which the loop starts, for a fetch source or for none.\<close>

definition startState :: "Row list \<Rightarrow> Source option \<Rightarrow> State" where
  "startState rows f =
     \<lparr>csvLines = rows, removedRows = [], fetch = f, cursorRow = 0, cursorCol = 0,
      lastSearch = Forward, lastSearchRev = Backward, lastWord = [], killbuffer = [],
      message = [], writes = []\<rparr>"

definition openDocument :: "Config \<Rightarrow> Source option \<Rightarrow> error + State" where
  "openDocument cfg f =
     (case f of
        None \<Rightarrow> Inr (startState (Push [] (NewRow (modeOf cfg))) None)
      | Some src \<Rightarrow>
          (case prefetch 100 src [] of
             Inl e \<Rightarrow> Inl e
           | Inr (f', rows) \<Rightarrow> Inr (startState rows f')))"

text \<open>
  The function handed to \<^verbatim>\<open>keyWorker.GetOr\<close>, one idle-time ingestion step:
  \<^verbatim>\<open>if fetch == nil { return false }; row, err := fetch(); if err != nil { fetch = nil; if err != io.EOF || isEmptyRow(row) { return false } }; app.Push(row); ...; return err != io.EOF\<close>.
\<close>

definition idleFetch :: "State \<Rightarrow> bool \<times> State" where
  "idleFetch s =
     (case fetch s of
        None \<Rightarrow> (False, s)
      | Some src \<Rightarrow>
          (case fetchCall src of
             ((row, Some e), src') \<Rightarrow>
               if e \<noteq> EOF \<or> isEmptyRow row then (False, s\<lparr>fetch := None\<rparr>)
               else (False, s\<lparr>fetch := None, csvLines := Push (csvLines s) row\<rparr>)
           | ((row, None), src') \<Rightarrow>
               (True, s\<lparr>fetch := Some src', csvLines := Push (csvLines s) row\<rparr>)))"

text \<open>
  Modelled from the spec: \<^verbatim>\<open>nonblock.GetOr\<close> (missing).  The wait for the next key
  performs one ingestion step whenever no key is immediately available, until a key
  arrives or ingestion is exhausted.  The first argument is the number of idle slots
  before the key arrives.
\<close>

fun GetOr :: "nat \<Rightarrow> State \<Rightarrow> State" where
  "GetOr 0 s = s"
| "GetOr (Suc n) s = (case idleFetch s of (True, s') \<Rightarrow> GetOr n s' | (False, s') \<Rightarrow> s')"

text \<open>
  The loop of the write command that reads all remaining data:
  \<^verbatim>\<open>for { row, err := fetch(); if err != nil && err != io.EOF { return nil, err }; app.Push(row); if err == io.EOF { break } }\<close>.
\<close>

function drain :: "Source \<Rightarrow> Row list \<Rightarrow> error + (Source \<times> Row list)" where
  "drain src rows =
     (case fetchCall src of
        ((row, Some e), src') \<Rightarrow> if e \<noteq> EOF then Inl e else Inr (src', Push rows row)
      | ((row, None), src') \<Rightarrow> drain src' (Push rows row))"
  by pat_completeness auto
termination
  by (relation "measure (\<lambda>(src, rows). length (pending src))")
     (auto simp: fetchCall_def split: list.splits)

subsection \<open>Keys\<close>

text \<open>The key tokens of the package \<^verbatim>\<open>keys\<close> that the \<^verbatim>\<open>switch\<close> names.\<close>

definition keyCtrlA :: string where "keyCtrlA = [CHR 0x01]"
definition keyCtrlB :: string where "keyCtrlB = [CHR 0x02]"
definition keyCtrlE :: string where "keyCtrlE = [CHR 0x05]"
definition keyCtrlF :: string where "keyCtrlF = [CHR 0x06]"
definition keyCtrlI :: string where "keyCtrlI = [CHR 0x09]"
definition keyCtrlL :: string where "keyCtrlL = [CHR 0x0C]"
definition keyCtrlN :: string where "keyCtrlN = [CHR 0x0E]"
definition keyCtrlP :: string where "keyCtrlP = [CHR 0x10]"
definition keyEnter :: string where "keyEnter = [CHR 0x0D]"
definition keyEscape :: string where "keyEscape = [CHR 0x1B]"
definition keyUp :: string where "keyUp = CHR 0x1B # ''[A''"
definition keyDown :: string where "keyDown = CHR 0x1B # ''[B''"
definition keyRight :: string where "keyRight = CHR 0x1B # ''[C''"
definition keyLeft :: string where "keyLeft = CHR 0x1B # ''[D''"
definition keyShiftTab :: string where "keyShiftTab = CHR 0x1B # ''[Z''"
definition keyF2 :: string where "keyF2 = CHR 0x1B # ''[OQ''"

text \<open>The cases of \<^verbatim>\<open>switch ch\<close>, in the order of the source.\<close>

datatype command =
    Redraw | QuitCmd | Down | Up | Left | Right | LineStart | LineEnd | DocStart | DocEnd
  | SearchNext | SearchPrev | SearchPrompt | NewRowAfter | NewRowBefore | DeleteRow
  | InsertCell | AppendCell | ReplaceCell | Undo | Yank | Paste | DeleteCell
  | ToggleQuote | WriteCmd | NoCommand

definition commandOf :: "string \<Rightarrow> command" where
  "commandOf k =
     (if k = keyCtrlL then Redraw
      else if k \<in> {''q'', keyEscape} then QuitCmd
      else if k \<in> {''j'', keyDown, keyCtrlN, keyEnter} then Down
      else if k \<in> {''k'', keyUp, keyCtrlP} then Up
      else if k \<in> {''h'', keyLeft, keyCtrlB, keyShiftTab} then Left
      else if k \<in> {''l'', keyRight, keyCtrlF, keyCtrlI} then Right
      else if k \<in> {''0'', ''^'', keyCtrlA} then LineStart
      else if k \<in> {''$'', keyCtrlE} then LineEnd
      else if k = ''<'' then DocStart
      else if k \<in> {''>'', ''G''} then DocEnd
      else if k = ''n'' then SearchNext
      else if k = ''N'' then SearchPrev
      else if k \<in> {''/'', ''?''} then SearchPrompt
      else if k = ''o'' then NewRowAfter
      else if k = ''O'' then NewRowBefore
      else if k = ''D'' then DeleteRow
      else if k = ''i'' then InsertCell
      else if k = ''a'' then AppendCell
      else if k \<in> {''r'', ''R'', keyF2} then ReplaceCell
      else if k = ''u'' then Undo
      else if k = ''y'' then Yank
      else if k = ''p'' then Paste
      else if k \<in> {''d'', ''x''} then DeleteCell
      else if k = [quoteChar] then ToggleQuote
      else if k = ''w'' then WriteCmd
      else NoCommand)"


subsection \<open>Commands\<close>

text \<open>
  Every command works on the row under the cursor handle.  \<^verbatim>\<open>cursorCol++\<close> is written
  \<open>cursorCol + 1\<close>: the column is clamped below the row's length at the end of every
  iteration and a slice is never longer than \<open>maxInt\<close>, so the increment does not wrap.
\<close>

definition cursorInRow :: "State \<Rightarrow> bool" where
  "cursorInRow s =
     (0 \<le> cursorCol s \<and> cursorCol s < int (length (Cell (currentRow s))))"

definition currentCell :: "State \<Rightarrow> Cell" where
  "currentCell s = Cell (currentRow s) ! nat (cursorCol s)"

definition setCurrentCell :: "Cell \<Rightarrow> State \<Rightarrow> State" where
  "setCurrentCell c s =
     setCurrentRow ((currentRow s)\<lparr>Cell := (Cell (currentRow s))[nat (cursorCol s) := c]\<rparr>) s"

text \<open>
  Modelled from the spec: the search routines over row handles are missing; the
  substring search is forward or backward from the cursor without wraparound, and
  reports not found with a nil row.  The loops of the array versions above are run on
  the grid of the cells' texts, from the column after or before the cursor.
\<close>

definition textGrid :: "Row list \<Rightarrow> string list list" where
  "textGrid rows = map (\<lambda>row. map Text (Cell row)) rows"

definition searchWith :: "direction \<Rightarrow> State \<Rightarrow> outcome" where
  "searchWith d s =
     (case (case d of
              Forward \<Rightarrow> forwardFrom (textGrid (csvLines s))
                           (int (cursorRow s)) (cursorCol s + 1) (lastWord s)
            | Backward \<Rightarrow> backwardFrom (textGrid (csvLines s))
                           (int (cursorRow s)) (cursorCol s - 1) (lastWord s)) of
        None \<Rightarrow> Panicked
      | Some (False, r, c) \<Rightarrow> Continue (s\<lparr>message := lastWord s @ '': not found''\<rparr>)
      | Some (True, r, c) \<Rightarrow> Continue (s\<lparr>cursorRow := nat r, cursorCol := c\<rparr>))"

definition cmdSearchNext :: "State \<Rightarrow> outcome" where
  "cmdSearchNext s = (if lastWord s = [] then Continue s else searchWith (lastSearch s) s)"

definition cmdSearchPrev :: "State \<Rightarrow> outcome" where
  "cmdSearchPrev s = (if lastWord s = [] then Continue s else searchWith (lastSearchRev s) s)"

definition cmdSearchPrompt :: "Input \<Rightarrow> State \<Rightarrow> outcome" where
  "cmdSearchPrompt inp s =
     (case snd (readLine inp) of
        Some e \<Rightarrow>
          Continue (if e \<noteq> CtrlC
                    then s\<lparr>lastWord := fst (readLine inp), message := errorText e\<rparr>
                    else s\<lparr>lastWord := fst (readLine inp)\<rparr>)
      | None \<Rightarrow>
          (if key inp = ''/''
           then searchWith Forward
                  (s\<lparr>lastWord := fst (readLine inp), lastSearch := Forward,
                     lastSearchRev := Backward\<rparr>)
           else searchWith Backward
                  (s\<lparr>lastWord := fst (readLine inp), lastSearch := Backward,
                     lastSearchRev := Forward\<rparr>)))"

text \<open>
  The tail that the cases \<^verbatim>\<open>"o"\<close> and \<^verbatim>\<open>"O"\<close> share word for word, run with the cursor
  handle on the new row: \<^verbatim>\<open>text, _ := pilot.ReadLine(...)\<close> drops the dialog's error, the
  column is brought into the new row, and the validated text replaces the cell.
\<close>

definition fillNewRow :: "Config \<Rightarrow> Input \<Rightarrow> State \<Rightarrow> outcome" where
  "fillNewRow cfg inp s =
     (let newCol = (if int (length (Cell (currentRow s))) \<le> cursorCol s
                    then int (length (Cell (currentRow s))) - 1 else cursorCol s)
      in case validate cfg (int (cursorRow s)) newCol (fst (readLine inp)) of
           Inl e \<Rightarrow> Continue (s\<lparr>message := errorText e\<rparr>)
         | Inr tx \<Rightarrow> replaceInCurrent (modeOf cfg) newCol tx s)"

definition padded :: "Config \<Rightarrow> Row \<Rightarrow> Row \<Rightarrow> Row" where
  "padded cfg newRow cur =
     (if FixColumn cfg then fillColumns newRow (length (Cell cur)) (modeOf cfg) else newRow)"

definition cmdNewRowAfter :: "Config \<Rightarrow> Input \<Rightarrow> State \<Rightarrow> outcome" where
  "cmdNewRowAfter cfg inp s =
     (if checkWriteProtect cfg s \<noteq> [] then Continue (s\<lparr>message := checkWriteProtect cfg s\<rparr>)
      else
        let newRow = (NewRow (modeOf cfg))\<lparr>Term := Term (currentRow s)\<rparr>;
            s1 = (if Term (currentRow s) = []
                  then setCurrentRow ((currentRow s)\<lparr>Term := DefaultTerm (modeOf cfg)\<rparr>) s
                  else s)
        in fillNewRow cfg inp
             (s1\<lparr>csvLines := InsertAfter (csvLines s1) (cursorRow s1)
                                (padded cfg newRow (currentRow s1)),
                 cursorRow := Suc (cursorRow s1)\<rparr>))"

definition cmdNewRowBefore :: "Config \<Rightarrow> Input \<Rightarrow> State \<Rightarrow> outcome" where
  "cmdNewRowBefore cfg inp s =
     (if checkWriteProtect cfg s \<noteq> [] then Continue (s\<lparr>message := checkWriteProtect cfg s\<rparr>)
      else fillNewRow cfg inp
             (s\<lparr>csvLines := InsertBefore (csvLines s) (cursorRow s)
                               (padded cfg (NewRow (modeOf cfg)) (currentRow s))\<rparr>))"

text \<open>
  The case \<^verbatim>\<open>"D"\<close>.  After the removal the cursor handle is the front row when the
  removed row had no predecessor, else the successor of that predecessor when there is
  one (it now stands at the removed row's position), else the predecessor, which takes
  over the removed row's terminator.
\<close>

definition cmdDeleteRow :: "Config \<Rightarrow> State \<Rightarrow> outcome" where
  "cmdDeleteRow cfg s =
     (if checkWriteProtect cfg s \<noteq> [] then Continue (s\<lparr>message := checkWriteProtect cfg s\<rparr>)
      else if length (csvLines s) \<le> 1 then Continue s
      else
        let removedRow = currentRow s;
            s1 = s\<lparr>csvLines := Remove (csvLines s) (cursorRow s),
                   removedRows := removedRows s @ [removedRow]\<rparr>
        in if cursorRow s = 0 then Continue (s1\<lparr>cursorRow := 0\<rparr>)
           else if cursorRow s < length (csvLines s1) then Continue s1
           else Continue
                  (setCurrentRow ((csvLines s1 ! (cursorRow s - 1))\<lparr>Term := Term removedRow\<rparr>)
                     (s1\<lparr>cursorRow := cursorRow s - 1\<rparr>)))"

definition soleEmptyCell :: "Row \<Rightarrow> bool" where
  "soleEmptyCell row = (length (Cell row) = 1 \<and> Text (Cell row ! 0) = [])"

definition cmdInsertCell :: "Config \<Rightarrow> Input \<Rightarrow> State \<Rightarrow> outcome" where
  "cmdInsertCell cfg inp s =
     (if checkWriteProtectAndColumn cfg s \<noteq> []
      then Continue (s\<lparr>message := checkWriteProtectAndColumn cfg s\<rparr>)
      else case snd (readLine inp) of
          Some e \<Rightarrow> Continue s
        | None \<Rightarrow>
            (case validate cfg (int (cursorRow s)) (cursorCol s) (fst (readLine inp)) of
               Inl e \<Rightarrow> Continue (s\<lparr>message := errorText e\<rparr>)
             | Inr tx \<Rightarrow>
                 if soleEmptyCell (currentRow s)
                 then replaceInCurrent (modeOf cfg) (cursorCol s) tx s
                 else (case Insert (currentRow s) (cursorCol s) tx (modeOf cfg) of
                         None \<Rightarrow> Panicked
                       | Some row \<Rightarrow>
                           Continue ((setCurrentRow row s)\<lparr>cursorCol := cursorCol s + 1\<rparr>))))"

text \<open>\<^verbatim>\<open>cursorRow.Delete(cursorCol); cursorCol--\<close>, the way an append is taken back.\<close>

definition takeBackAppend :: "Config \<Rightarrow> State \<Rightarrow> outcome" where
  "takeBackAppend cfg s =
     (case Delete (currentRow s) (cursorCol s) (modeOf cfg) of
        None \<Rightarrow> Panicked
      | Some row \<Rightarrow> Continue ((setCurrentRow row s)\<lparr>cursorCol := cursorCol s - 1\<rparr>))"

definition cmdAppendCell :: "Config \<Rightarrow> Input \<Rightarrow> State \<Rightarrow> outcome" where
  "cmdAppendCell cfg inp s =
     (if checkWriteProtectAndColumn cfg s \<noteq> []
      then Continue (s\<lparr>message := checkWriteProtectAndColumn cfg s\<rparr>)
      else if soleEmptyCell (currentRow s) then
        (case snd (readLine inp) of
           Some e \<Rightarrow> Continue s
         | None \<Rightarrow>
             (case validate cfg (int (cursorRow s)) (cursorCol s) (fst (readLine inp)) of
                Inl e \<Rightarrow> Continue (s\<lparr>message := errorText e\<rparr>)
              | Inr tx \<Rightarrow> replaceInCurrent (modeOf cfg) (cursorCol s) tx s))
      else
        (case Insert (currentRow s) (cursorCol s + 1) [] (modeOf cfg) of
           None \<Rightarrow> Panicked
         | Some row \<Rightarrow>
             (case snd (readLine inp) of
                Some e \<Rightarrow>
                  takeBackAppend cfg ((setCurrentRow row s)\<lparr>cursorCol := cursorCol s + 1\<rparr>)
              | None \<Rightarrow>
                  (case validate cfg (int (cursorRow s)) (cursorCol s + 1)
                          (fst (readLine inp)) of
                     Inl e \<Rightarrow>
                       takeBackAppend cfg
                         ((setCurrentRow row s)\<lparr>cursorCol := cursorCol s + 1,
                                                 message := errorText e\<rparr>)
                   | Inr tx \<Rightarrow>
                       replaceInCurrent (modeOf cfg) (cursorCol s + 1) tx
                         ((setCurrentRow row s)\<lparr>cursorCol := cursorCol s + 1\<rparr>)))))"

text \<open>
  The cases \<^verbatim>\<open>"r"\<close>, \<^verbatim>\<open>"u"\<close>, \<^verbatim>\<open>"y"\<close> and the quote toggle index
  \<^verbatim>\<open>cursorRow.Cell[cursorCol]\<close> directly: outside the row this panics.
\<close>

definition cmdReplaceCell :: "Config \<Rightarrow> Input \<Rightarrow> State \<Rightarrow> outcome" where
  "cmdReplaceCell cfg inp s =
     (if checkWriteProtect cfg s \<noteq> [] then Continue (s\<lparr>message := checkWriteProtect cfg s\<rparr>)
      else if \<not> cursorInRow s then Panicked
      else case snd (readLine inp) of
          Some e \<Rightarrow> Continue s
        | None \<Rightarrow>
            (case validate cfg (int (cursorRow s)) (cursorCol s) (fst (readLine inp)) of
               Inl e \<Rightarrow> Continue (s\<lparr>message := errorText e\<rparr>)
             | Inr tx \<Rightarrow>
                 (case replaceInCurrent (modeOf cfg) (cursorCol s) tx s of
                    Continue s' \<Rightarrow>
                      if IsQuoted (currentCell s)
                      then Continue (setCurrentCell (Quote (modeOf cfg) (currentCell s')) s')
                      else Continue s'
                  | out \<Rightarrow> out)))"

definition cmdUndo :: "Config \<Rightarrow> State \<Rightarrow> outcome" where
  "cmdUndo cfg s =
     (if \<not> cursorInRow s then Panicked
      else Continue (setCurrentCell (Restore (modeOf cfg) (currentCell s)) s))"

definition cmdYank :: "State \<Rightarrow> outcome" where
  "cmdYank s =
     (if \<not> cursorInRow s then Panicked
      else Continue (s\<lparr>killbuffer := Text (currentCell s),
                       message := ''yanked the current cell: '' @ Text (currentCell s)\<rparr>))"

definition cmdPaste :: "Config \<Rightarrow> State \<Rightarrow> outcome" where
  "cmdPaste cfg s =
     (if checkWriteProtect cfg s \<noteq> [] then Continue (s\<lparr>message := checkWriteProtect cfg s\<rparr>)
      else case replaceInCurrent (modeOf cfg) (cursorCol s) (killbuffer s) s of
          Continue s' \<Rightarrow> Continue (s'\<lparr>message := ''pasted: '' @ killbuffer s\<rparr>)
        | out \<Rightarrow> out)"

definition cmdDeleteCell :: "Config \<Rightarrow> State \<Rightarrow> outcome" where
  "cmdDeleteCell cfg s =
     (if checkWriteProtectAndColumn cfg s \<noteq> []
      then Continue (s\<lparr>message := checkWriteProtectAndColumn cfg s\<rparr>)
      else if length (Cell (currentRow s)) \<le> 1 then replaceInCurrent (modeOf cfg) 0 [] s
      else (case Delete (currentRow s) (cursorCol s) (modeOf cfg) of
              None \<Rightarrow> Panicked
            | Some row \<Rightarrow> Continue (setCurrentRow row s)))"

definition cmdToggleQuote :: "Config \<Rightarrow> State \<Rightarrow> outcome" where
  "cmdToggleQuote cfg s =
     (if \<not> cursorInRow s then Panicked
      else if IsQuoted (currentCell s)
      then replaceInCurrent (modeOf cfg) (cursorCol s) (Text (currentCell s)) s
      else Continue (setCurrentCell (Quote (modeOf cfg) (currentCell s)) s))"

text \<open>
  Modelled from the spec: \<^verbatim>\<open>cmdWrite\<close> (missing) reads the row list and serializes it; here
  the document it is handed is recorded, and its error becomes the message.
\<close>

definition callWrite :: "Input \<Rightarrow> State \<Rightarrow> State" where
  "callWrite inp s =
     (case writeError inp of
        None \<Rightarrow> s\<lparr>writes := writes s @ [csvLines s]\<rparr>
      | Some e \<Rightarrow> s\<lparr>writes := writes s @ [csvLines s], message := errorText e\<rparr>)"

definition cmdWriteOut :: "Input \<Rightarrow> State \<Rightarrow> outcome" where
  "cmdWriteOut inp s =
     (case fetch s of
        None \<Rightarrow> Continue (callWrite inp s)
      | Some src \<Rightarrow>
          (case drain src (csvLines s) of
             Inl e \<Rightarrow> Failed e
           | Inr (src', rows) \<Rightarrow>
               Continue (callWrite inp (s\<lparr>fetch := Some src', csvLines := rows\<rparr>))))"

definition cmdQuit :: "Config \<Rightarrow> Input \<Rightarrow> State \<Rightarrow> outcome" where
  "cmdQuit cfg inp s = (if ReadOnly cfg \<or> yesNo inp then Exited s else Continue s)"

text \<open>The \<^verbatim>\<open>switch\<close> over the key.\<close>

definition dispatch :: "Config \<Rightarrow> Input \<Rightarrow> State \<Rightarrow> outcome" where
  "dispatch cfg inp s =
     (case commandOf (key inp) of
        Redraw \<Rightarrow> Continue s
      | QuitCmd \<Rightarrow> cmdQuit cfg inp s
      | Down \<Rightarrow> Continue (if Suc (cursorRow s) < length (csvLines s)
                           then s\<lparr>cursorRow := Suc (cursorRow s)\<rparr> else s)
      | Up \<Rightarrow> Continue (if 0 < cursorRow s then s\<lparr>cursorRow := cursorRow s - 1\<rparr> else s)
      | Left \<Rightarrow> Continue (if 0 < cursorCol s then s\<lparr>cursorCol := cursorCol s - 1\<rparr> else s)
      | Right \<Rightarrow> Continue (s\<lparr>cursorCol := cursorCol s + 1\<rparr>)
      | LineStart \<Rightarrow> Continue (s\<lparr>cursorCol := 0\<rparr>)
      | LineEnd \<Rightarrow> Continue (s\<lparr>cursorCol := int (length (Cell (currentRow s))) - 1\<rparr>)
      | DocStart \<Rightarrow> Continue (s\<lparr>cursorRow := 0, cursorCol := 0\<rparr>)
      | DocEnd \<Rightarrow> Continue (s\<lparr>cursorRow := length (csvLines s) - 1\<rparr>)
      | SearchNext \<Rightarrow> cmdSearchNext s
      | SearchPrev \<Rightarrow> cmdSearchPrev s
      | SearchPrompt \<Rightarrow> cmdSearchPrompt inp s
      | NewRowAfter \<Rightarrow> cmdNewRowAfter cfg inp s
      | NewRowBefore \<Rightarrow> cmdNewRowBefore cfg inp s
      | DeleteRow \<Rightarrow> cmdDeleteRow cfg s
      | InsertCell \<Rightarrow> cmdInsertCell cfg inp s
      | AppendCell \<Rightarrow> cmdAppendCell cfg inp s
      | ReplaceCell \<Rightarrow> cmdReplaceCell cfg inp s
      | Undo \<Rightarrow> cmdUndo cfg s
      | Yank \<Rightarrow> cmdYank s
      | Paste \<Rightarrow> cmdPaste cfg s
      | DeleteCell \<Rightarrow> cmdDeleteCell cfg s
      | ToggleQuote \<Rightarrow> cmdToggleQuote cfg s
      | WriteCmd \<Rightarrow> cmdWriteOut inp s
      | NoCommand \<Rightarrow> Continue s)"

text \<open>
  The clamp at the end of every iteration:
  \<^verbatim>\<open>if L := len(cursorRow.Cell); L <= 0 { cursorCol = 0 } else if cursorCol >= L { cursorCol = L - 1 }\<close>.
\<close>

definition clampCursor :: "State \<Rightarrow> outcome" where
  "clampCursor s =
     (if length (csvLines s) \<le> cursorRow s then Panicked
      else if int (length (Cell (currentRow s))) \<le> 0 then Continue (s\<lparr>cursorCol := 0\<rparr>)
      else if int (length (Cell (currentRow s))) \<le> cursorCol s
      then Continue (s\<lparr>cursorCol := int (length (Cell (currentRow s))) - 1\<rparr>)
      else Continue s)"

text \<open>From the key to the end of the iteration: \<^verbatim>\<open>message = ""\<close>, the command, the clamp.\<close>

definition keyStep :: "Config \<Rightarrow> Input \<Rightarrow> State \<Rightarrow> outcome" where
  "keyStep cfg inp s =
     (case dispatch cfg inp (s\<lparr>message := []\<rparr>) of
        Continue s' \<Rightarrow> clampCursor s'
      | out \<Rightarrow> out)"

text \<open>
  One iteration of the loop.  Drawing the page dereferences the cursor handle, so a nil
  handle panics before any key is read.
\<close>

definition iteration :: "Config \<Rightarrow> Input \<Rightarrow> State \<Rightarrow> outcome" where
  "iteration cfg inp s =
     (if length (csvLines s) \<le> cursorRow s then Panicked
      else keyStep cfg inp (GetOr (idleSlots inp) s))"

fun run :: "Config \<Rightarrow> Input list \<Rightarrow> State \<Rightarrow> outcome" where
  "run cfg [] s = Continue s"
| "run cfg (inp # inps) s =
     (case iteration cfg inp s of
        Continue s' \<Rightarrow> run cfg inps s'
      | out \<Rightarrow> out)"

subsection \<open>Invariants of the loop\<close>

text \<open>The document has at least one row and every row has at least one cell.\<close>

definition documentOK :: "Row list \<Rightarrow> bool" where
  "documentOK rows = (rows \<noteq> [] \<and> (\<forall>row \<in> set rows. Cell row \<noteq> []))"

text \<open>The cursor handle refers to a row of the document and the column to one of its cells.\<close>

definition cursorOK :: "State \<Rightarrow> bool" where
  "cursorOK s = (cursorRow s < length (csvLines s) \<and> cursorInRow s)"

text \<open>Every row the fetch source still delivers has at least one cell.\<close>

definition sourceOK :: "Source option \<Rightarrow> bool" where
  "sourceOK f =
     (case f of
        None \<Rightarrow> True
      | Some src \<Rightarrow> (\<forall>item \<in> set (pending src). Cell (fst item) \<noteq> []) \<and> Cell (atEnd src) \<noteq> [])"

text \<open>A row carries an empty line terminator only if it is the last row.\<close>

definition terminatorsOK :: "Row list \<Rightarrow> bool" where
  "terminatorsOK rows = (\<forall>i < length rows. Term (rows ! i) = [] \<longrightarrow> Suc i = length rows)"

text \<open>What holds at the start of every iteration, and what every command leaves for the clamp.\<close>

definition loopInvariant :: "State \<Rightarrow> bool" where
  "loopInvariant s = (documentOK (csvLines s) \<and> cursorOK s \<and> sourceOK (fetch s))"

definition afterCommand :: "State \<Rightarrow> bool" where
  "afterCommand s =
     (documentOK (csvLines s) \<and> cursorRow s < length (csvLines s) \<and> 0 \<le> cursorCol s \<and>
      sourceOK (fetch s))"

text \<open>An outcome is not a panic, and if the loop goes on the state satisfies \<open>P\<close>.\<close>

definition endsWell :: "(State \<Rightarrow> bool) \<Rightarrow> outcome \<Rightarrow> bool" where
  "endsWell P out = (case out of Panicked \<Rightarrow> False | Continue s \<Rightarrow> P s | _ \<Rightarrow> True)"

text \<open>An outcome that neither leaves the loop nor fails: the next iteration, or a panic.\<close>

definition goesOn :: "outcome \<Rightarrow> bool" where
  "goesOn out = (case out of Exited s \<Rightarrow> False | Failed e \<Rightarrow> False | _ \<Rightarrow> True)"


subsection \<open>The insert and delete keys, and concrete documents\<close>

text \<open>
  The keys of the insert and delete commands: row delete, cell delete, row insert
  after and before, cell insert and append.
\<close>

definition insertDeleteKeys :: "string set" where
  "insertDeleteKeys = {''D'', ''d'', ''x'', ''o'', ''O'', ''i'', ''a''}"

text \<open>A comma-separated mode with LF as default terminator, and a configuration over it.\<close>

definition commaMode :: Mode where
  "commaMode = \<lparr>Comma = CHR '','', DefaultTerm = [LF]\<rparr>"

definition plainConfig :: Config where
  "plainConfig =
     \<lparr>Mode = Some commaMode, HeaderLines = 0, FixColumn = False, ReadOnly = False,
      ProtectHeader = False, OnCellValidated = None\<rparr>"

text \<open>A row as decoding delivers it, from the source texts of its fields and its terminator.\<close>

definition decodedRow :: "string list \<Rightarrow> string \<Rightarrow> Row" where
  "decodedRow sources t = \<lparr>Cell = map decode sources, Term = t\<rparr>"

text \<open>
  A key that arrives at once; the same with a text entered into the dialog the command
  opens; and the same with the dialog cancelled.
\<close>

definition press :: "string \<Rightarrow> Input" where
  "press k = \<lparr>idleSlots = 0, key = k, readLine = ([], None), yesNo = False, writeError = None\<rparr>"

definition pressAndType :: "string \<Rightarrow> string \<Rightarrow> Input" where
  "pressAndType k entered =
     \<lparr>idleSlots = 0, key = k, readLine = (entered, None), yesNo = False, writeError = None\<rparr>"

definition pressAndCancel :: "string \<Rightarrow> Input" where
  "pressAndCancel k =
     \<lparr>idleSlots = 0, key = k, readLine = ([], Some CtrlC), yesNo = False, writeError = None\<rparr>"

text \<open>A document of one row with the two cells \<open>a\<close> and \<open>b\<close>, fully loaded, cursor at the front.\<close>

definition oneRowDocument :: State where
  "oneRowDocument = startState [decodedRow [''a'', ''b''] [LF]] None"

text \<open>
  A configuration without a mode (\<^verbatim>\<open>cfg.Mode == nil\<close>), and a document whose only row has no
  terminator, as a file without final line break is read.
\<close>

definition modelessConfig :: Config where
  "modelessConfig = plainConfig\<lparr>Mode := None\<rparr>"

definition unterminatedDocument :: State where
  "unterminatedDocument = startState [decodedRow [''a''] []] None"

text \<open>A configuration in read-only mode.\<close>

definition readOnlyConfig :: Config where
  "readOnlyConfig = plainConfig\<lparr>ReadOnly := True\<rparr>"

text \<open>What \<open>n\<close> successive calls of the fetch source deliver.\<close>

fun deliveries :: "nat \<Rightarrow> Source \<Rightarrow> (Row \<times> error option) list" where
  "deliveries 0 src = []"
| "deliveries (Suc n) src = fst (fetchCall src) # deliveries n (snd (fetchCall src))"

text \<open>
  The first \<open>n\<close> calls deliver rows without error and call \<open>n + 1\<close> delivers the error
  \<open>e\<close>: with \<open>e\<close> end-of-input, these \<open>n + 1\<close> deliveries are all the remaining rows.
\<close>

definition firstErrorAt :: "nat \<Rightarrow> Source \<Rightarrow> error \<Rightarrow> bool" where
  "firstErrorAt n src e =
     ((\<forall>i < n. snd (deliveries (Suc n) src ! i) = None) \<and>
      snd (deliveries (Suc n) src ! n) = Some e)"

text \<open>
  An input of one hundred lines \<open>x\<close>, each with its line terminator: after the hundred
  rows the source delivers the all-empty row of the trailing terminator together with
  end-of-input.
\<close>

definition trailingRow :: Row where
  "trailingRow = decodedRow [[]] []"

definition hundredLines :: Source where
  "hundredLines =
     \<lparr>pending = replicate 100 (decodedRow [''x''] [LF], None) @ [(trailingRow, Some EOF)],
      atEnd = trailingRow\<rparr>"

text \<open>The same input with a single line, and the state in which its row is loaded and the
  fetch source not yet exhausted.\<close>

definition oneLineLeft :: Source where
  "oneLineLeft = \<lparr>pending = [(decodedRow [''y''] [LF], None), (trailingRow, Some EOF)],
                   atEnd = trailingRow\<rparr>"

definition loadingDocument :: State where
  "loadingDocument = startState [decodedRow [''x''] [LF]] (Some oneLineLeft)"


section \<open>Drawing a page through the line cache\<close>

text \<open>
  \<^verbatim>\<open>drawPage\<close> renders each record of the page into a buffer with \<^verbatim>\<open>drawLine\<close> and writes
  the buffer only when it differs from the cache entry of its screen row.  \<^verbatim>\<open>drawLine\<close> is
  a function of the record, the cursor position and the band (and of widths and style,
  which are fixed during a frame); it is the parameter \<open>draw\<close> below.  The cache is Go's
  \<^verbatim>\<open>map[int]string\<close>: reading a missing key yields the empty string.
\<close>

type_synonym cache = "int \<Rightarrow> string option"

definition cacheAt :: "cache \<Rightarrow> int \<Rightarrow> string" where
  "cacheAt c k = (case c k of None \<Rightarrow> [] | Some line \<Rightarrow> line)"

text \<open>
  What \<^verbatim>\<open>drawPage\<close> writes to \<^verbatim>\<open>out\<close>: its own line feeds \<^verbatim>\<open>"\r\n"\<close> and rendered lines, in
  the order of the calls of \<^verbatim>\<open>io.WriteString\<close>.
\<close>

datatype chunk = LineFeed | Line string

text \<open>
  The body of the callback that \<^verbatim>\<open>drawPage\<close> hands to the page, after the test
  \<^verbatim>\<open>count >= h\<close>.  The state is \<^verbatim>\<open>reverse\<close>, \<^verbatim>\<open>count\<close>, \<^verbatim>\<open>lfCount\<close>, the cache and the
  output so far.
\<close>

definition drawRecord ::
  "('r \<Rightarrow> int \<Rightarrow> bool \<Rightarrow> string) \<Rightarrow> int \<Rightarrow> int \<Rightarrow> 'r \<Rightarrow>
   bool \<times> int \<times> int \<times> cache \<times> chunk list \<Rightarrow> bool \<times> int \<times> int \<times> cache \<times> chunk list" where
  "drawRecord draw csrpos csrlin record st =
     (case st of (reverse, count, lfCount, c, out) \<Rightarrow>
        let lfCount1 = (if 0 < count then lfCount + 1 else lfCount);
            out1 = (if 0 < count then out @ [LineFeed] else out);
            line = draw record (if count = csrlin then csrpos else - 1) reverse
        in if cacheAt c count \<noteq> line
           then (\<not> reverse, count + 1, lfCount1, c(count \<mapsto> line), out1 @ [Line line])
           else (\<not> reverse, count + 1, lfCount1, c, out1))"

text \<open>
  The page calls the callback for its records in turn and stops when the callback
  returns false, which it does once \<^verbatim>\<open>count >= h\<close>.
\<close>

fun drawRecords ::
  "('r \<Rightarrow> int \<Rightarrow> bool \<Rightarrow> string) \<Rightarrow> int \<Rightarrow> int \<Rightarrow> int \<Rightarrow> 'r list \<Rightarrow>
   bool \<times> int \<times> int \<times> cache \<times> chunk list \<Rightarrow> bool \<times> int \<times> int \<times> cache \<times> chunk list" where
  "drawRecords draw csrpos csrlin h [] st = st"
| "drawRecords draw csrpos csrlin h (record # rest) st =
     (if h \<le> fst (snd st) then st
      else drawRecords draw csrpos csrlin h rest (drawRecord draw csrpos csrlin record st))"

text \<open>\<^verbatim>\<open>drawPage\<close>: the line-feed count it returns, the cache it leaves, and what it wrote.\<close>

definition drawPage ::
  "('r \<Rightarrow> int \<Rightarrow> bool \<Rightarrow> string) \<Rightarrow> int \<Rightarrow> int \<Rightarrow> int \<Rightarrow> cache \<Rightarrow> 'r list \<Rightarrow>
   int \<times> cache \<times> chunk list" where
  "drawPage draw csrpos csrlin h c records =
     (case drawRecords draw csrpos csrlin h records (False, 0, 0, c, []) of
        (reverse, count, lfCount, c', out) \<Rightarrow> (lfCount + 1, c', out @ [LineFeed]))"

text \<open>
  The cache-free full redraw that the cached drawing is compared with: it renders the
  same lines and writes every one of them.
\<close>

definition redrawRecord ::
  "('r \<Rightarrow> int \<Rightarrow> bool \<Rightarrow> string) \<Rightarrow> int \<Rightarrow> int \<Rightarrow> 'r \<Rightarrow>
   bool \<times> int \<times> int \<times> chunk list \<Rightarrow> bool \<times> int \<times> int \<times> chunk list" where
  "redrawRecord draw csrpos csrlin record st =
     (case st of (reverse, count, lfCount, out) \<Rightarrow>
        (\<not> reverse, count + 1, (if 0 < count then lfCount + 1 else lfCount),
         (if 0 < count then out @ [LineFeed] else out)
           @ [Line (draw record (if count = csrlin then csrpos else - 1) reverse)]))"

fun redrawRecords ::
  "('r \<Rightarrow> int \<Rightarrow> bool \<Rightarrow> string) \<Rightarrow> int \<Rightarrow> int \<Rightarrow> int \<Rightarrow> 'r list \<Rightarrow>
   bool \<times> int \<times> int \<times> chunk list \<Rightarrow> bool \<times> int \<times> int \<times> chunk list" where
  "redrawRecords draw csrpos csrlin h [] st = st"
| "redrawRecords draw csrpos csrlin h (record # rest) st =
     (if h \<le> fst (snd st) then st
      else redrawRecords draw csrpos csrlin h rest (redrawRecord draw csrpos csrlin record st))"

definition redrawPage ::
  "('r \<Rightarrow> int \<Rightarrow> bool \<Rightarrow> string) \<Rightarrow> int \<Rightarrow> int \<Rightarrow> int \<Rightarrow> 'r list \<Rightarrow> int \<times> chunk list" where
  "redrawPage draw csrpos csrlin h records =
     (case redrawRecords draw csrpos csrlin h records (False, 0, 0, []) of
        (reverse, count, lfCount, out) \<Rightarrow> (lfCount + 1, out @ [LineFeed]))"

text \<open>
  The terminal, as far as the page is concerned: the content of each screen line,
  counted from the top line of the page, and the line the cursor is on.  A line feed
  moves the cursor to the start of the next line.  A rendered line is written with the
  cursor at the start of a screen line and begins by erasing that line, and
  \<^verbatim>\<open>drawLine\<close> replaces control characters, so writing it replaces the content of exactly
  that screen line; writing the empty string writes nothing.
\<close>

record Terminal =
  screen :: "int \<Rightarrow> string"
  cursorLine :: int

definition receive :: "Terminal \<Rightarrow> chunk \<Rightarrow> Terminal" where
  "receive t ch =
     (case ch of
        LineFeed \<Rightarrow> t\<lparr>cursorLine := cursorLine t + 1\<rparr>
      | Line line \<Rightarrow> if line = [] then t else t\<lparr>screen := (screen t)(cursorLine t := line)\<rparr>)"

text \<open>\<^verbatim>\<open>up(n, out)\<close> moves the cursor to the start of the line \<open>n\<close> lines up.\<close>

definition up :: "int \<Rightarrow> Terminal \<Rightarrow> Terminal" where
  "up n t = t\<lparr>cursorLine := cursorLine t - n\<rparr>"

text \<open>
  After \<^verbatim>\<open>view.Draw\<close> the loop writes the status line (or the message) where the page
  ended, followed by \<^verbatim>\<open>_ANSI_ERASE_SCRN_AFTER\<close>: that screen line now shows the status
  and the lines below it are blank.  \<^verbatim>\<open>repaint\<close>, which the new-row commands call before
  their prompt, draws the page without a status line: \<open>None\<close>.
\<close>

definition writeStatus :: "string option \<Rightarrow> Terminal \<Rightarrow> Terminal" where
  "writeStatus status t =
     (case status of
        None \<Rightarrow> t
      | Some text \<Rightarrow>
          t\<lparr>screen := (\<lambda>k. if k < cursorLine t then screen t k
                           else if k = cursorLine t then text else [])\<rparr>)"

text \<open>
  A frame: the records of the page, the cursor column and line, the height \<open>h\<close>, and
  the status line written under the page.  Showing a frame draws the page, writes the
  status line, and moves the cursor back up by the count that \<^verbatim>\<open>drawPage\<close> returned, as
  the loop does before it draws again.
\<close>

record 'r Frame =
  frameRecords :: "'r list"
  frameCsrpos :: int
  frameCsrlin :: int
  frameHeight :: int
  frameStatus :: "string option"

definition showFrame ::
  "('r \<Rightarrow> int \<Rightarrow> bool \<Rightarrow> string) \<Rightarrow> cache \<times> Terminal \<Rightarrow> 'r Frame \<Rightarrow> cache \<times> Terminal" where
  "showFrame draw ct f =
     (case drawPage draw (frameCsrpos f) (frameCsrlin f) (frameHeight f) (fst ct)
             (frameRecords f) of
        (lfCount, c', out) \<Rightarrow>
          (c', up lfCount (writeStatus (frameStatus f) (foldl receive (snd ct) out))))"

definition showFrameRedrawn ::
  "('r \<Rightarrow> int \<Rightarrow> bool \<Rightarrow> string) \<Rightarrow> Terminal \<Rightarrow> 'r Frame \<Rightarrow> Terminal" where
  "showFrameRedrawn draw t f =
     (case redrawPage draw (frameCsrpos f) (frameCsrlin f) (frameHeight f) (frameRecords f) of
        (lfCount, out) \<Rightarrow> up lfCount (writeStatus (frameStatus f) (foldl receive t out)))"

text \<open>
  The cache agrees with the terminal: the cursor is on the top line of the page and
  every non-empty cache entry is the content of its screen line.
\<close>

definition rowAgrees :: "cache \<Rightarrow> Terminal \<Rightarrow> bool" where
  "rowAgrees c t = (\<forall>k line. c k = Some line \<and> line \<noteq> [] \<longrightarrow> screen t k = line)"

definition cacheAgrees :: "cache \<Rightarrow> Terminal \<Rightarrow> bool" where
  "cacheAgrees c t = (cursorLine t = 0 \<and> rowAgrees c t)"

text \<open>The screen line the cursor is on when the callback is entered with \<open>count = n\<close>.\<close>

definition lineBefore :: "int \<Rightarrow> int" where
  "lineBefore n = (if n = 0 then 0 else n - 1)"

text \<open>
  A renderer that keeps what \<^verbatim>\<open>drawLine\<close> depends on visible: the band, whether the
  cursor is on the line, and the record.  A blank terminal.  Three frames of a document
  \<^verbatim>\<open>a\<close>, \<^verbatim>\<open>b\<close>, \<^verbatim>\<open>c\<close>: as loaded; after \<^verbatim>\<open>D\<close> on the first row; and the repaint of \<^verbatim>\<open>o\<close>
  before its prompt.
\<close>

definition bandDraw :: "string \<Rightarrow> int \<Rightarrow> bool \<Rightarrow> string" where
  "bandDraw record cursorPos reverse =
     (if reverse then ''='' else ''-'') @ (if 0 \<le> cursorPos then ''>'' else '' '') @ record"

definition blankTerminal :: Terminal where
  "blankTerminal = \<lparr>screen = (\<lambda>k. []), cursorLine = 0\<rparr>"

definition shrinkingFrames :: "string Frame list" where
  "shrinkingFrames =
     [\<lparr>frameRecords = [''a'', ''b'', ''c''], frameCsrpos = 0, frameCsrlin = 0, frameHeight = 24,
       frameStatus = Some ''(1,1/3)''\<rparr>,
      \<lparr>frameRecords = [''b'', ''c''], frameCsrpos = 0, frameCsrlin = 0, frameHeight = 24,
       frameStatus = Some ''(1,1/2)''\<rparr>,
      \<lparr>frameRecords = [''b'', [], ''c''], frameCsrpos = 0, frameCsrlin = 1, frameHeight = 24,
       frameStatus = None\<rparr>]"


section \<open>Properties of the search\<close>

declare forwardInRow.simps [simp del] forwardFrom.simps [simp del]
  backwardInRow.simps [simp del] backwardFrom.simps [simp del]

lemma forwardInRow_found:
  "forwardInRow row c target = Some (True, c') \<Longrightarrow>
     0 \<le> c' \<and> c' < int (length row) \<and> Contains (row ! nat c') target"
proof (induction row c target rule: forwardInRow.induct)
  case (1 row c target)
  show ?case
  proof (cases "c < int (length row) \<and> \<not> c < 0 \<and> \<not> Contains (row ! nat c) target")
    case True
    with "1.prems" have "forwardInRow row (c + 1) target = Some (True, c')"
      by (subst (asm) forwardInRow.simps) simp
    with True "1.IH" show ?thesis by simp
  next
    case False
    with "1.prems" show ?thesis
      by (subst (asm) forwardInRow.simps) (auto split: if_splits)
  qed
qed

lemma forwardFrom_found:
  "forwardFrom csvlines r c target = Some (True, r', c') \<Longrightarrow>
     0 \<le> r \<and> r \<le> r' \<and> r' < int (length csvlines) \<and> 0 \<le> c' \<and>
     c' < int (length (csvlines ! nat r')) \<and>
     Contains (csvlines ! nat r' ! nat c') target"
proof (induction csvlines r c target rule: forwardFrom.induct)
  case (1 csvlines r c target)
  from "1.prems" have inr: "r < int (length csvlines)" "0 \<le> r"
    by (subst (asm) forwardFrom.simps, simp split: if_splits)+
  show ?case
  proof (cases "forwardInRow (csvlines ! nat r) c target")
    case None
    with "1.prems" inr show ?thesis
      by (subst (asm) forwardFrom.simps) simp
  next
    case (Some p)
    obtain b c2 where p: "p = (b, c2)" by (cases p)
    show ?thesis
    proof (cases b)
      case True
      with "1.prems" inr Some p have "r' = r" "c' = c2"
        by (subst (asm) forwardFrom.simps, simp)+
      with forwardInRow_found [of "csvlines ! nat r" c target c2] Some p True inr
      show ?thesis by simp
    next
      case False
      with "1.prems" inr Some p
      have "forwardFrom csvlines (r + 1) 0 target = Some (True, r', c')"
        by (subst (asm) forwardFrom.simps) simp
      with "1.IH" [of p b c2] inr Some p False show ?thesis by simp
    qed
  qed
qed




lemma forwardInRow_total: "0 \<le> c \<Longrightarrow> forwardInRow row c target \<noteq> None"
proof (induction row c target rule: forwardInRow.induct)
  case (1 row c target)
  then show ?case by (subst forwardInRow.simps) auto
qed

lemma forwardFrom_total: "0 \<le> r \<Longrightarrow> 0 \<le> c \<Longrightarrow> forwardFrom csvlines r c target \<noteq> None"
proof (induction csvlines r c target rule: forwardFrom.induct)
  case (1 csvlines r c target)
  show ?case
  proof (cases "forwardInRow (csvlines ! nat r) c target")
    case None
    with forwardInRow_total [OF "1.prems"(2)] show ?thesis by blast
  next
    case (Some p)
    obtain b c2 where p: "p = (b, c2)" by (cases p)
    show ?thesis
    proof (cases "r < int (length csvlines) \<and> \<not> b")
      case True
      with "1.IH" [of p b c2] "1.prems" Some p
      have "forwardFrom csvlines (r + 1) 0 target \<noteq> None" by simp
      with True "1.prems" Some p show ?thesis by (subst forwardFrom.simps) simp
    next
      case False
      with "1.prems" Some p show ?thesis by (subst forwardFrom.simps) auto
    qed
  qed
qed

lemma backwardInRow_total: "c < int (length row) \<Longrightarrow> backwardInRow row c target \<noteq> None"
proof (induction row c target rule: backwardInRow.induct)
  case (1 row c target)
  then show ?case by (subst backwardInRow.simps) auto
qed

lemma backwardInRow_found:
  "backwardInRow row c target = Some (True, c') \<Longrightarrow> 0 \<le> c' \<and> c' \<le> c"
proof (induction row c target rule: backwardInRow.induct)
  case (1 row c target)
  show ?case
  proof (cases "0 \<le> c \<and> \<not> int (length row) \<le> c \<and> \<not> Contains (row ! nat c) target")
    case True
    with "1.prems" have "backwardInRow row (c - 1) target = Some (True, c')"
      by (subst (asm) backwardInRow.simps) simp
    with True "1.IH" show ?thesis by simp
  next
    case False
    with "1.prems" show ?thesis
      by (subst (asm) backwardInRow.simps) (auto split: if_splits)
  qed
qed

lemma backwardFrom_total:
  "0 \<le> r \<Longrightarrow> r < int (length csvlines) \<Longrightarrow> c < int (length (csvlines ! nat r)) \<Longrightarrow>
   backwardFrom csvlines r c target \<noteq> None"
proof (induction csvlines r c target rule: backwardFrom.induct)
  case (1 csvlines r c target)
  let ?row = "if 0 \<le> c then csvlines ! nat r else []"
  have r_min: "r \<noteq> minInt" using "1.prems" by (simp add: minInt_def)
  show ?case
  proof (cases "backwardInRow ?row c target")
    case None
    have "backwardInRow ?row c target \<noteq> None"
    proof (cases "0 \<le> c")
      case True
      with "1.prems" show ?thesis by (simp add: backwardInRow_total)
    next
      case False
      then show ?thesis by (subst backwardInRow.simps) simp
    qed
    with None show ?thesis by simp
  next
    case (Some p)
    obtain b c2 where p: "p = (b, c2)" by (cases p)
    show ?thesis
    proof (cases "\<not> b \<and> 0 < r")
      case True
      with "1.prems" have r1: "0 \<le> r - 1" "r - 1 < int (length csvlines)" by simp_all
      have "backwardFrom csvlines (r - 1) (int (length (csvlines ! nat (r - 1))) - 1) target
              \<noteq> None"
      proof (rule "1.IH" [OF _ Some [unfolded p] refl])
      qed (use "1.prems" r1 r_min True in simp_all)
      with True "1.prems" r1 r_min Some p show ?thesis
        by (subst backwardFrom.simps) simp
    next
      case False
      with "1.prems" r_min Some p show ?thesis
        by (subst backwardFrom.simps) (auto split: bool.splits)
    qed
  qed
qed

lemma backwardFrom_found:
  "backwardFrom csvlines r c target = Some (True, r', c') \<Longrightarrow>
   0 \<le> r \<Longrightarrow> r < int (length csvlines) \<Longrightarrow> c < int (length (csvlines ! nat r)) \<Longrightarrow>
   0 \<le> r' \<and> r' < int (length csvlines) \<and> 0 \<le> c' \<and> c' < int (length (csvlines ! nat r'))"
proof (induction csvlines r c target rule: backwardFrom.induct)
  case (1 csvlines r c target)
  let ?row = "if 0 \<le> c then csvlines ! nat r else []"
  have r_min: "r \<noteq> minInt" using "1.prems" by (simp add: minInt_def)
  show ?case
  proof (cases "backwardInRow ?row c target")
    case None
    with "1.prems" show ?thesis by (subst (asm) backwardFrom.simps) (simp split: if_splits)
  next
    case (Some p)
    obtain b c2 where p: "p = (b, c2)" by (cases p)
    show ?thesis
    proof (cases b)
      case True
      with "1.prems" Some p have eq: "r' = r" "c' = c2"
        by (subst (asm) backwardFrom.simps, simp split: if_splits)+
      from Some p True have "0 \<le> c2 \<and> c2 \<le> c"
        by (auto dest: backwardInRow_found)
      with eq "1.prems" show ?thesis by simp
    next
      case False
      from "1.prems"(1) Some p False r_min "1.prems"(2-4)
      have rec: "0 < r \<and> backwardFrom csvlines (r - 1)
                   (int (length (csvlines ! nat (r - 1))) - 1) target = Some (True, r', c')"
        by (subst (asm) backwardFrom.simps) (simp split: if_splits)
      then have r1: "0 \<le> r - 1" "r - 1 < int (length csvlines)" using "1.prems" by simp_all
      show ?thesis
      proof (rule "1.IH" [OF _ Some [unfolded p] refl])
      qed (use "1.prems" r1 r_min False rec in simp_all)
    qed
  qed
qed


section \<open>The loop invariant\<close>

declare fillColumns.simps [simp del] drain.simps [simp del]

lemma endsWell_simps [simp]:
  "endsWell P Panicked = False"
  "endsWell P (Continue s) = P s"
  "endsWell P (Exited s) = True"
  "endsWell P (Failed e) = True"
  by (simp_all add: endsWell_def)

lemma Replace_Some:
  "Replace row col t m = Some r \<longleftrightarrow>
     0 \<le> col \<and> col < int (length (Cell row)) \<and>
     r = row\<lparr>Cell := (Cell row)[nat col := setText t m (Cell row ! nat col)]\<rparr>"
  by (auto simp: Replace_def)

lemma Replace_None:
  "Replace row col t m = None \<longleftrightarrow> \<not> (0 \<le> col \<and> col < int (length (Cell row)))"
  by (simp add: Replace_def)

lemma Insert_Some:
  "Insert row col t m = Some r \<longleftrightarrow>
     0 \<le> col \<and> col \<le> int (length (Cell row)) \<and> r = insertCell row (nat col) t m"
  by (auto simp: Insert_def)

lemma Insert_None:
  "Insert row col t m = None \<longleftrightarrow> \<not> (0 \<le> col \<and> col \<le> int (length (Cell row)))"
  by (simp add: Insert_def)

lemma insertCell_simps [simp]:
  "Cell (insertCell row n t m) = take n (Cell row) @ setText t m emptyCell # drop n (Cell row)"
  "Term (insertCell row n t m) = Term row"
  by (simp_all add: insertCell_def)

lemma Delete_None:
  "Delete row col m = None \<longleftrightarrow> \<not> (0 \<le> col \<and> col < int (length (Cell row)))"
  by (auto simp: Delete_def Replace_def)

lemma Delete_Some:
  "Delete row col m = Some r \<Longrightarrow> Cell r \<noteq> [] \<and> Term r = Term row"
  by (cases "Cell row") (auto simp: Delete_def Replace_def split: if_splits)

lemma Delete_Some_long:
  "Delete row col m = Some r \<Longrightarrow> 1 < length (Cell row) \<Longrightarrow>
     r = row\<lparr>Cell := take (nat col) (Cell row) @ drop (Suc (nat col)) (Cell row)\<rparr>"
  by (auto simp: Delete_def split: if_splits)

lemma fillColumns_Cell: "Cell newRow \<noteq> [] \<Longrightarrow> Cell (fillColumns newRow n m) \<noteq> []"
proof (induction newRow n m rule: fillColumns.induct)
  case (1 newRow n mode)
  then show ?case by (subst fillColumns.simps) simp
qed

lemma fillColumns_Term: "Term (fillColumns newRow n m) = Term newRow"
proof (induction newRow n m rule: fillColumns.induct)
  case (1 newRow n mode)
  then show ?case by (subst fillColumns.simps) simp
qed

lemma padded_Cell: "Cell newRow \<noteq> [] \<Longrightarrow> Cell (padded cfg newRow cur) \<noteq> []"
  by (simp add: padded_def fillColumns_Cell)

lemma padded_Term: "Term (padded cfg newRow cur) = Term newRow"
  by (simp add: padded_def fillColumns_Term)

lemma NewRow_Cell: "Cell (NewRow m) \<noteq> []"
  by (simp add: NewRow_def)

lemma documentOK_update:
  "documentOK rows \<Longrightarrow> Cell row \<noteq> [] \<Longrightarrow> documentOK (rows[i := row])"
  unfolding documentOK_def
  by (auto dest!: set_update_subset_insert [THEN subsetD])

lemma documentOK_InsertAfter:
  "documentOK rows \<Longrightarrow> Cell row \<noteq> [] \<Longrightarrow> documentOK (InsertAfter rows n row)"
  unfolding documentOK_def InsertAfter_def by (auto dest: in_set_takeD in_set_dropD)

lemma documentOK_InsertBefore:
  "documentOK rows \<Longrightarrow> Cell row \<noteq> [] \<Longrightarrow> documentOK (InsertBefore rows n row)"
  unfolding documentOK_def InsertBefore_def by (auto dest: in_set_takeD in_set_dropD)

lemma length_InsertAfter:
  "n < length rows \<Longrightarrow> length (InsertAfter rows n row) = Suc (length rows)"
  by (auto simp: InsertAfter_def)

lemma length_InsertBefore:
  "n < length rows \<Longrightarrow> length (InsertBefore rows n row) = Suc (length rows)"
  by (auto simp: InsertBefore_def)

lemma length_Remove: "n < length rows \<Longrightarrow> length (Remove rows n) = length rows - 1"
  by (auto simp: Remove_def)

lemma documentOK_Remove:
  "documentOK rows \<Longrightarrow> 1 < length rows \<Longrightarrow> n < length rows \<Longrightarrow> documentOK (Remove rows n)"
  unfolding documentOK_def
  by (auto simp: Remove_def dest: in_set_takeD in_set_dropD)

lemma documentOK_Push:
  "documentOK rows \<Longrightarrow> Cell row \<noteq> [] \<Longrightarrow> documentOK (Push rows row)"
  unfolding documentOK_def Push_def by auto

lemma currentRow_Cell:
  "documentOK (csvLines s) \<Longrightarrow> cursorRow s < length (csvLines s) \<Longrightarrow> Cell (currentRow s) \<noteq> []"
  by (simp add: documentOK_def currentRow_def)

lemma loopInvariant_afterCommand: "loopInvariant s \<Longrightarrow> afterCommand s"
  by (simp add: loopInvariant_def afterCommand_def cursorOK_def cursorInRow_def)

lemma afterCommand_setCurrentRow:
  "afterCommand s \<Longrightarrow> Cell row \<noteq> [] \<Longrightarrow> afterCommand (setCurrentRow row s)"
  by (simp add: afterCommand_def setCurrentRow_def documentOK_update)

lemma afterCommand_message [simp]: "afterCommand (s\<lparr>message := m\<rparr>) = afterCommand s"
  by (simp add: afterCommand_def)

lemma afterCommand_cursorCol:
  "afterCommand s \<Longrightarrow> 0 \<le> c \<Longrightarrow> afterCommand (s\<lparr>cursorCol := c\<rparr>)"
  by (simp add: afterCommand_def)

lemma replaceInCurrent_endsWell:
  "afterCommand s \<Longrightarrow> 0 \<le> col \<Longrightarrow> col < int (length (Cell (currentRow s))) \<Longrightarrow>
   endsWell afterCommand (replaceInCurrent m col t s)"
  by (auto simp: replaceInCurrent_def Replace_def intro!: afterCommand_setCurrentRow)

lemma fillNewRow_endsWell:
  "afterCommand s \<Longrightarrow> endsWell afterCommand (fillNewRow cfg inp s)"
proof -
  assume a: "afterCommand s"
  then have ne: "Cell (currentRow s) \<noteq> []" and c0: "0 \<le> cursorCol s"
    by (simp_all add: afterCommand_def currentRow_Cell)
  let ?col = "if int (length (Cell (currentRow s))) \<le> cursorCol s
              then int (length (Cell (currentRow s))) - 1 else cursorCol s"
  from ne c0 have "0 \<le> ?col" "?col < int (length (Cell (currentRow s)))"
    by (auto simp: Suc_le_eq)
  with a show ?thesis
    by (auto simp: fillNewRow_def Let_def split: sum.splits intro: replaceInCurrent_endsWell)
qed

lemma cmdNewRowAfter_endsWell:
  assumes "afterCommand s"
  shows "endsWell afterCommand (cmdNewRowAfter cfg inp s)"
proof (cases "checkWriteProtect cfg s \<noteq> []")
  case True
  with assms show ?thesis by (simp add: cmdNewRowAfter_def)
next
  case False
  define s1 where "s1 = (if Term (currentRow s) = []
      then setCurrentRow ((currentRow s)\<lparr>Term := DefaultTerm (modeOf cfg)\<rparr>) s else s)"
  define newRow where "newRow = padded cfg ((NewRow (modeOf cfg))\<lparr>Term := Term (currentRow s)\<rparr>) (currentRow s1)"
  from assms have ne: "Cell (currentRow s) \<noteq> []"
    by (simp add: afterCommand_def currentRow_Cell)
  with assms have a1: "afterCommand s1"
    by (auto simp: s1_def intro: afterCommand_setCurrentRow)
  have nr: "Cell newRow \<noteq> []"
    by (simp add: newRow_def padded_Cell NewRow_def)
  from a1 nr have "afterCommand (s1\<lparr>csvLines := InsertAfter (csvLines s1) (cursorRow s1) newRow,
                 cursorRow := Suc (cursorRow s1)\<rparr>)"
    by (simp add: afterCommand_def documentOK_InsertAfter length_InsertAfter)
  then have "endsWell afterCommand (fillNewRow cfg inp
      (s1\<lparr>csvLines := InsertAfter (csvLines s1) (cursorRow s1) newRow,
          cursorRow := Suc (cursorRow s1)\<rparr>))"
    by (rule fillNewRow_endsWell)
  with False show ?thesis
    by (simp add: cmdNewRowAfter_def Let_def s1_def newRow_def)
qed

lemma cmdNewRowBefore_endsWell:
  assumes "afterCommand s"
  shows "endsWell afterCommand (cmdNewRowBefore cfg inp s)"
proof (cases "checkWriteProtect cfg s \<noteq> []")
  case True
  with assms show ?thesis by (simp add: cmdNewRowBefore_def)
next
  case False
  have nr: "Cell (padded cfg (NewRow (modeOf cfg)) (currentRow s)) \<noteq> []"
    by (simp add: padded_Cell NewRow_def)
  with assms have "afterCommand (s\<lparr>csvLines := InsertBefore (csvLines s) (cursorRow s)
                               (padded cfg (NewRow (modeOf cfg)) (currentRow s))\<rparr>)"
    by (simp add: afterCommand_def documentOK_InsertBefore length_InsertBefore)
  then show ?thesis using False
    by (simp add: cmdNewRowBefore_def fillNewRow_endsWell)
qed

lemma cmdDeleteRow_endsWell:
  assumes "afterCommand s"
  shows "endsWell afterCommand (cmdDeleteRow cfg s)"
proof (cases "checkWriteProtect cfg s \<noteq> [] \<or> length (csvLines s) \<le> 1")
  case True
  with assms show ?thesis by (auto simp: cmdDeleteRow_def)
next
  case False
  then have long: "1 < length (csvLines s)" by simp
  from assms have cur: "cursorRow s < length (csvLines s)" and doc: "documentOK (csvLines s)"
    by (simp_all add: afterCommand_def)
  have doc': "documentOK (Remove (csvLines s) (cursorRow s))"
    using doc long cur by (rule documentOK_Remove)
  have len': "length (Remove (csvLines s) (cursorRow s)) = length (csvLines s) - 1"
    using cur by (rule length_Remove)
  have prev: "0 < cursorRow s \<Longrightarrow>
      Cell (Remove (csvLines s) (cursorRow s) ! (cursorRow s - 1)) \<noteq> []"
    using doc' len' cur long unfolding documentOK_def by (simp add: nth_mem)
  from False assms doc' len' cur long prev show ?thesis
    by (auto simp: cmdDeleteRow_def Let_def afterCommand_def setCurrentRow_def
        intro!: documentOK_update)
qed


lemma currentRow_setCurrentRow:
  "cursorRow s < length (csvLines s) \<Longrightarrow> currentRow (setCurrentRow row s) = row"
  by (simp add: currentRow_def setCurrentRow_def)

lemma setCurrentRow_fields [simp]:
  "cursorRow (setCurrentRow row s) = cursorRow s"
  "cursorCol (setCurrentRow row s) = cursorCol s"
  "fetch (setCurrentRow row s) = fetch s"
  "length (csvLines (setCurrentRow row s)) = length (csvLines s)"
  by (simp_all add: setCurrentRow_def)

lemma currentRow_updates [simp]:
  "currentRow (s\<lparr>cursorCol := c\<rparr>) = currentRow s"
  "currentRow (s\<lparr>message := m\<rparr>) = currentRow s"
  "currentRow (s\<lparr>lastWord := w\<rparr>) = currentRow s"
  by (simp_all add: currentRow_def)

lemma loopInvariantD:
  assumes "loopInvariant s"
  shows "afterCommand s" "cursorRow s < length (csvLines s)" "0 \<le> cursorCol s"
    "cursorCol s < int (length (Cell (currentRow s)))" "Cell (currentRow s) \<noteq> []"
    "cursorInRow s"
  using assms
  by (auto simp: loopInvariant_def afterCommand_def cursorOK_def cursorInRow_def)

lemma cmdInsertCell_endsWell:
  assumes inv: "loopInvariant s"
  shows "endsWell afterCommand (cmdInsertCell cfg inp s)"
proof -
  note d = loopInvariantD [OF inv]
  have rep: "\<And>tx. endsWell afterCommand (replaceInCurrent (modeOf cfg) (cursorCol s) tx s)"
    using d by (intro replaceInCurrent_endsWell)
  have ins: "\<And>tx. endsWell afterCommand
      (case Insert (currentRow s) (cursorCol s) tx (modeOf cfg) of
         None \<Rightarrow> Panicked
       | Some row \<Rightarrow> Continue ((setCurrentRow row s)\<lparr>cursorCol := cursorCol s + 1\<rparr>))"
    using d
    by (auto simp: Insert_def intro!: afterCommand_cursorCol afterCommand_setCurrentRow)
  show ?thesis
    unfolding cmdInsertCell_def using d(1) rep ins
    by (simp split: option.splits sum.splits)
qed

lemma takeBackAppend_endsWell:
  assumes inv: "loopInvariant s" and row: "Insert (currentRow s) (cursorCol s + 1) [] m = Some row"
  shows "endsWell afterCommand
           (takeBackAppend cfg ((setCurrentRow row s)\<lparr>cursorCol := cursorCol s + 1, message := msg\<rparr>))"
    and "endsWell afterCommand
           (takeBackAppend cfg ((setCurrentRow row s)\<lparr>cursorCol := cursorCol s + 1\<rparr>))"
proof -
  note d = loopInvariantD [OF inv]
  from row have r: "row = insertCell (currentRow s) (nat (cursorCol s + 1)) [] m"
    by (simp add: Insert_Some)
  then have len: "length (Cell row) = Suc (length (Cell (currentRow s)))" using d by simp
  have a: "afterCommand (setCurrentRow row s)"
    using d(1) len by (intro afterCommand_setCurrentRow) auto
  have cur: "currentRow (setCurrentRow row s) = row"
    using d(2) by (rule currentRow_setCurrentRow)
  obtain r' where del: "Delete row (cursorCol s + 1) (modeOf cfg) = Some r'"
    using d len by (cases "Delete row (cursorCol s + 1) (modeOf cfg)") (auto simp: Delete_None)
  then have ne: "Cell r' \<noteq> []" by (auto dest: Delete_Some)
  have "afterCommand (setCurrentRow r' (setCurrentRow row s))"
    using a ne by (rule afterCommand_setCurrentRow)
  then have fin: "afterCommand ((setCurrentRow r' (setCurrentRow row s))\<lparr>cursorCol := cursorCol s\<rparr>)"
    using d(3) by (rule afterCommand_cursorCol)
  show "endsWell afterCommand
           (takeBackAppend cfg ((setCurrentRow row s)\<lparr>cursorCol := cursorCol s + 1, message := msg\<rparr>))"
    using fin del cur
    by (simp add: takeBackAppend_def setCurrentRow_def currentRow_def afterCommand_def)
  show "endsWell afterCommand
           (takeBackAppend cfg ((setCurrentRow row s)\<lparr>cursorCol := cursorCol s + 1\<rparr>))"
    using fin del cur
    by (simp add: takeBackAppend_def setCurrentRow_def currentRow_def afterCommand_def)
qed

lemma cmdAppendCell_endsWell:
  assumes inv: "loopInvariant s"
  shows "endsWell afterCommand (cmdAppendCell cfg inp s)"
proof -
  note d = loopInvariantD [OF inv]
  have rep: "\<And>tx. endsWell afterCommand (replaceInCurrent (modeOf cfg) (cursorCol s) tx s)"
    using d by (intro replaceInCurrent_endsWell)
  obtain row where row: "Insert (currentRow s) (cursorCol s + 1) [] (modeOf cfg) = Some row"
    using d by (auto simp: Insert_def)
  then have len: "length (Cell row) = Suc (length (Cell (currentRow s)))"
    using d by (simp add: Insert_Some)
  have a: "afterCommand ((setCurrentRow row s)\<lparr>cursorCol := cursorCol s + 1\<rparr>)"
    using d len by (intro afterCommand_cursorCol afterCommand_setCurrentRow) auto
  have cur: "currentRow ((setCurrentRow row s)\<lparr>cursorCol := cursorCol s + 1\<rparr>) = row"
    using d(2) by (simp add: currentRow_setCurrentRow)
  have rep2: "\<And>tx. endsWell afterCommand (replaceInCurrent (modeOf cfg) (cursorCol s + 1) tx
      ((setCurrentRow row s)\<lparr>cursorCol := cursorCol s + 1\<rparr>))"
    using a d len cur by (intro replaceInCurrent_endsWell) auto
  show ?thesis
    unfolding cmdAppendCell_def
    using d(1) rep rep2 row takeBackAppend_endsWell [OF inv row]
    by (simp split: option.splits sum.splits)
qed

lemma afterCommand_setCurrentCell:
  "afterCommand s \<Longrightarrow> Cell (currentRow s) \<noteq> [] \<Longrightarrow> afterCommand (setCurrentCell c s)"
  unfolding setCurrentCell_def by (rule afterCommand_setCurrentRow) simp_all

lemma cmdReplaceCell_endsWell:
  assumes inv: "loopInvariant s"
  shows "endsWell afterCommand (cmdReplaceCell cfg inp s)"
proof -
  note d = loopInvariantD [OF inv]
  have rep: "\<And>tx. \<exists>s'. replaceInCurrent (modeOf cfg) (cursorCol s) tx s = Continue s' \<and>
      afterCommand s' \<and> Cell (currentRow s') \<noteq> []"
    using d
    by (auto simp: replaceInCurrent_def Replace_def currentRow_setCurrentRow
        intro!: afterCommand_setCurrentRow)
  show ?thesis
  proof (cases "checkWriteProtect cfg s \<noteq> []")
    case True
    with d(1) show ?thesis by (simp add: cmdReplaceCell_def)
  next
    case False
    show ?thesis
    proof (cases "snd (readLine inp)")
      case (Some e)
      with False d show ?thesis by (simp add: cmdReplaceCell_def)
    next
      case None
      show ?thesis
      proof (cases "validate cfg (int (cursorRow s)) (cursorCol s) (fst (readLine inp))")
        case (Inl e)
        with False None d show ?thesis by (simp add: cmdReplaceCell_def)
      next
        case (Inr tx)
        from rep [of tx] obtain s' where
          s': "replaceInCurrent (modeOf cfg) (cursorCol s) tx s = Continue s'"
          "afterCommand s'" "Cell (currentRow s') \<noteq> []" by blast
        with False None Inr d show ?thesis
          by (simp add: cmdReplaceCell_def afterCommand_setCurrentCell)
      qed
    qed
  qed
qed

lemma cmdUndo_endsWell: "loopInvariant s \<Longrightarrow> endsWell afterCommand (cmdUndo cfg s)"
  by (simp add: cmdUndo_def loopInvariantD afterCommand_setCurrentCell)

lemma cmdYank_endsWell: "loopInvariant s \<Longrightarrow> endsWell afterCommand (cmdYank s)"
  using loopInvariantD(1) [of s] by (simp add: cmdYank_def loopInvariantD afterCommand_def)

lemma cmdPaste_endsWell:
  assumes inv: "loopInvariant s"
  shows "endsWell afterCommand (cmdPaste cfg s)"
proof -
  note d = loopInvariantD [OF inv]
  have "endsWell afterCommand (replaceInCurrent (modeOf cfg) (cursorCol s) (killbuffer s) s)"
    using d by (intro replaceInCurrent_endsWell)
  with d(1) show ?thesis
    by (auto simp: cmdPaste_def endsWell_def split: outcome.splits)
qed

lemma cmdDeleteCell_endsWell:
  assumes inv: "loopInvariant s"
  shows "endsWell afterCommand (cmdDeleteCell cfg s)"
proof -
  note d = loopInvariantD [OF inv]
  have rep: "endsWell afterCommand (replaceInCurrent (modeOf cfg) 0 [] s)"
    using d by (intro replaceInCurrent_endsWell) auto
  have del: "endsWell afterCommand
      (case Delete (currentRow s) (cursorCol s) (modeOf cfg) of
         None \<Rightarrow> Panicked | Some row \<Rightarrow> Continue (setCurrentRow row s))"
    using d
    by (auto simp: Delete_None split: option.splits dest: Delete_Some
        intro!: afterCommand_setCurrentRow)
  from d(1) rep del show ?thesis by (simp add: cmdDeleteCell_def)
qed

lemma cmdToggleQuote_endsWell:
  assumes inv: "loopInvariant s"
  shows "endsWell afterCommand (cmdToggleQuote cfg s)"
proof -
  note d = loopInvariantD [OF inv]
  have "\<And>tx. endsWell afterCommand (replaceInCurrent (modeOf cfg) (cursorCol s) tx s)"
    using d by (intro replaceInCurrent_endsWell)
  with d show ?thesis by (simp add: cmdToggleQuote_def afterCommand_setCurrentCell)
qed


lemma textGrid_length [simp]: "length (textGrid rows) = length rows"
  by (simp add: textGrid_def)

lemma textGrid_row_length [simp]:
  "i < length rows \<Longrightarrow> length (textGrid rows ! i) = length (Cell (rows ! i))"
  by (simp add: textGrid_def)

lemma searchWith_endsWell:
  assumes inv: "loopInvariant s"
  shows "endsWell afterCommand (searchWith d s)"
proof -
  note i = loopInvariantD [OF inv]
  let ?g = "textGrid (csvLines s)"
  have rowlen: "length (?g ! cursorRow s) = length (Cell (currentRow s))"
    using i(2) by (simp add: currentRow_def)
  show ?thesis
  proof (cases d)
    case Forward
    let ?res = "forwardFrom ?g (int (cursorRow s)) (cursorCol s + 1) (lastWord s)"
    have "?res \<noteq> None" using i by (intro forwardFrom_total) simp_all
    then obtain b r c where res: "?res = Some (b, r, c)" by (cases ?res) auto
    show ?thesis
    proof (cases b)
      case True
      with res have "0 \<le> r \<and> r < int (length ?g) \<and> 0 \<le> c"
        by (auto dest: forwardFrom_found)
      with True res Forward i(1) show ?thesis
        by (simp add: searchWith_def afterCommand_def nat_less_iff)
    next
      case False
      with res Forward i(1) show ?thesis by (simp add: searchWith_def)
    qed
  next
    case Backward
    let ?res = "backwardFrom ?g (int (cursorRow s)) (cursorCol s - 1) (lastWord s)"
    have pre: "0 \<le> int (cursorRow s)" "int (cursorRow s) < int (length ?g)"
      "cursorCol s - 1 < int (length (?g ! nat (int (cursorRow s))))"
      using i rowlen by simp_all
    have "?res \<noteq> None" using pre by (rule backwardFrom_total)
    then obtain b r c where res: "?res = Some (b, r, c)" by (cases ?res) auto
    show ?thesis
    proof (cases b)
      case True
      with res pre have "0 \<le> r \<and> r < int (length ?g) \<and> 0 \<le> c"
        using backwardFrom_found [of ?g "int (cursorRow s)" "cursorCol s - 1" "lastWord s" r c]
        by simp
      with True res Backward i(1) show ?thesis
        by (simp add: searchWith_def afterCommand_def nat_less_iff)
    next
      case False
      with res Backward i(1) show ?thesis by (simp add: searchWith_def)
    qed
  qed
qed

lemma loopInvariant_search_fields [simp]:
  "loopInvariant (s\<lparr>lastWord := w\<rparr>) = loopInvariant s"
  "loopInvariant (s\<lparr>lastSearch := d\<rparr>) = loopInvariant s"
  "loopInvariant (s\<lparr>lastSearchRev := d\<rparr>) = loopInvariant s"
  "loopInvariant (s\<lparr>message := m\<rparr>) = loopInvariant s"
  by (simp_all add: loopInvariant_def cursorOK_def cursorInRow_def currentRow_def)

lemma cmdSearch_endsWell:
  assumes inv: "loopInvariant s"
  shows "endsWell afterCommand (cmdSearchNext s)"
    and "endsWell afterCommand (cmdSearchPrev s)"
    and "endsWell afterCommand (cmdSearchPrompt inp s)"
proof -
  note a = loopInvariantD(1) [OF inv]
  show "endsWell afterCommand (cmdSearchNext s)"
    using a inv by (simp add: cmdSearchNext_def searchWith_endsWell)
  show "endsWell afterCommand (cmdSearchPrev s)"
    using a inv by (simp add: cmdSearchPrev_def searchWith_endsWell)
  have "afterCommand (s\<lparr>lastWord := fst (readLine inp)\<rparr>)"
    using a by (simp add: afterCommand_def)
  then show "endsWell afterCommand (cmdSearchPrompt inp s)"
    using inv by (simp add: cmdSearchPrompt_def searchWith_endsWell split: option.splits)
qed

lemma drain_preserves:
  "drain src rows = Inr (src', rows') \<Longrightarrow> sourceOK (Some src) \<Longrightarrow> documentOK rows \<Longrightarrow>
   sourceOK (Some src') \<and> documentOK rows' \<and> length rows \<le> length rows' \<and>
   take (length rows) rows' = rows"
proof (induction src rows rule: drain.induct)
  case (1 src rows)
  show ?case
  proof (cases "pending src")
    case Nil
    with "1.prems" show ?thesis
      by (subst (asm) drain.simps)
         (auto simp: fetchCall_def sourceOK_def Push_def documentOK_def)
  next
    case (Cons x xs)
    obtain row err where x: "x = (row, err)" by (cases x)
    have ok': "sourceOK (Some (src\<lparr>pending := xs\<rparr>))" "Cell row \<noteq> []"
      using "1.prems"(2) Cons x by (auto simp: sourceOK_def)
    show ?thesis
    proof (cases err)
      case None
      with "1.prems"(1) Cons x
      have rec: "drain (src\<lparr>pending := xs\<rparr>) (Push rows row) = Inr (src', rows')"
        by (subst (asm) drain.simps) (simp add: fetchCall_def)
      have "sourceOK (Some src') \<and> documentOK rows' \<and>
            length (Push rows row) \<le> length rows' \<and>
            take (length (Push rows row)) rows' = Push rows row"
      proof (rule "1.IH" [OF _ _ _ rec ok'(1)])
        show "(( row, None), src\<lparr>pending := xs\<rparr>) = fetchCall src"
          using Cons x None by (simp add: fetchCall_def)
        show "(row, None) = (row, None)" by simp
        show "None = None" by simp
        show "documentOK (Push rows row)"
          using "1.prems"(3) ok'(2) by (rule documentOK_Push)
      qed
      then have ih: "sourceOK (Some src')" "documentOK rows'"
        "Suc (length rows) \<le> length rows'"
        "take (Suc (length rows)) rows' = rows @ [row]"
        by (simp_all add: Push_def)
      have "take (length rows) rows' = take (length rows) (take (Suc (length rows)) rows')"
        by (simp add: min_def)
      also have "\<dots> = rows" by (simp add: ih(4))
      finally show ?thesis using ih by simp
    next
      case (Some e)
      with "1.prems" Cons x ok' show ?thesis
        by (subst (asm) drain.simps)
           (auto simp: fetchCall_def Push_def documentOK_def split: if_splits)
    qed
  qed
qed


lemma callWrite_afterCommand: "afterCommand s \<Longrightarrow> afterCommand (callWrite inp s)"
  by (simp add: callWrite_def afterCommand_def split: option.splits)

lemma cmdWriteOut_endsWell:
  assumes a: "afterCommand s"
  shows "endsWell afterCommand (cmdWriteOut inp s)"
proof (cases "fetch s")
  case None
  with a show ?thesis by (simp add: cmdWriteOut_def callWrite_afterCommand)
next
  case (Some src)
  show ?thesis
  proof (cases "drain src (csvLines s)")
    case (Inl e)
    with Some show ?thesis by (simp add: cmdWriteOut_def)
  next
    case (Inr p)
    obtain src' rows' where p: "p = (src', rows')" by (cases p)
    from a Some have "sourceOK (Some src)" "documentOK (csvLines s)"
      by (simp_all add: afterCommand_def)
    with Inr p have "sourceOK (Some src') \<and> documentOK rows' \<and>
        length (csvLines s) \<le> length rows'"
      by (auto dest: drain_preserves)
    with a have "afterCommand (s\<lparr>fetch := Some src', csvLines := rows'\<rparr>)"
      by (simp add: afterCommand_def)
    with Some Inr p show ?thesis
      by (simp add: cmdWriteOut_def callWrite_afterCommand)
  qed
qed

lemma dispatch_endsWell:
  assumes inv: "loopInvariant s"
  shows "endsWell afterCommand (dispatch cfg inp s)"
proof -
  note d = loopInvariantD [OF inv]
  have moves:
    "afterCommand (s\<lparr>cursorRow := Suc (cursorRow s)\<rparr>)" if "Suc (cursorRow s) < length (csvLines s)"
    using that d(1) by (simp add: afterCommand_def)
  have up: "afterCommand (s\<lparr>cursorRow := cursorRow s - 1\<rparr>)"
    using d(1,2) by (simp add: afterCommand_def)
  have cols: "afterCommand (s\<lparr>cursorCol := cursorCol s - 1\<rparr>)" if "0 < cursorCol s"
    using that d(1) by (simp add: afterCommand_def)
  have right: "afterCommand (s\<lparr>cursorCol := cursorCol s + 1\<rparr>)"
    "afterCommand (s\<lparr>cursorCol := 0\<rparr>)"
    "afterCommand (s\<lparr>cursorCol := int (length (Cell (currentRow s))) - 1\<rparr>)"
    "afterCommand (s\<lparr>cursorRow := 0, cursorCol := 0\<rparr>)"
    "afterCommand (s\<lparr>cursorRow := length (csvLines s) - 1\<rparr>)"
    using d by (auto simp: afterCommand_def Suc_le_eq)
  show ?thesis
  proof (cases "commandOf (key inp)")
    case QuitCmd
    with d(1) show ?thesis by (simp add: dispatch_def cmdQuit_def)
  next
    case Down
    with d(1) moves show ?thesis by (simp add: dispatch_def)
  next
    case Left
    with d(1) cols show ?thesis by (simp add: dispatch_def)
  qed (use d(1) inv up right in \<open>simp_all add: dispatch_def cmdSearch_endsWell
        cmdNewRowAfter_endsWell cmdNewRowBefore_endsWell cmdDeleteRow_endsWell
        cmdInsertCell_endsWell cmdAppendCell_endsWell cmdReplaceCell_endsWell cmdUndo_endsWell
        cmdYank_endsWell cmdPaste_endsWell cmdDeleteCell_endsWell cmdToggleQuote_endsWell
        cmdWriteOut_endsWell\<close>)
qed

lemma clampCursor_endsWell:
  assumes a: "afterCommand s"
  shows "endsWell loopInvariant (clampCursor s)"
proof -
  from a have ne: "Cell (currentRow s) \<noteq> []"
    by (simp add: afterCommand_def currentRow_Cell)
  with a show ?thesis
    by (auto simp: clampCursor_def afterCommand_def loopInvariant_def cursorOK_def
        cursorInRow_def currentRow_def)
qed

lemma endsWell_bind:
  assumes "endsWell P out" and "\<And>s'. P s' \<Longrightarrow> endsWell Q (f s')"
  shows "endsWell Q (case out of Continue s' \<Rightarrow> f s' | Panicked \<Rightarrow> Panicked
           | Failed e \<Rightarrow> Failed e | Exited s' \<Rightarrow> Exited s')"
  using assms by (cases out) simp_all

lemma keyStep_endsWell:
  assumes inv: "loopInvariant s"
  shows "endsWell loopInvariant (keyStep cfg inp s)"
proof -
  have "endsWell afterCommand (dispatch cfg inp (s\<lparr>message := []\<rparr>))"
    using inv by (intro dispatch_endsWell) simp
  then show ?thesis
    unfolding keyStep_def
    by (cases "dispatch cfg inp (s\<lparr>message := []\<rparr>)") (simp_all add: clampCursor_endsWell)
qed

lemma idleFetch_loopInvariant:
  assumes inv: "loopInvariant s"
  shows "loopInvariant (snd (idleFetch s))"
proof (cases "fetch s")
  case None
  with inv show ?thesis by (simp add: idleFetch_def)
next
  case (Some src)
  obtain row err src' where f: "fetchCall src = ((row, err), src')"
    by (metis prod.exhaust)
  from inv Some have ok: "sourceOK (Some src)" by (simp add: loopInvariant_def)
  with f have row: "Cell row \<noteq> []" and ok': "sourceOK (Some src')"
    by (auto simp: fetchCall_def sourceOK_def split: list.splits)
  have push: "loopInvariant (s\<lparr>fetch := f', csvLines := Push (csvLines s) row\<rparr>)"
    if "sourceOK f'" for f'
    using inv row that
    by (auto simp: loopInvariant_def cursorOK_def cursorInRow_def currentRow_def
        documentOK_Push) (simp_all add: Push_def nth_append)
  have drop: "loopInvariant (s\<lparr>fetch := None\<rparr>)"
    using inv by (simp add: loopInvariant_def cursorOK_def cursorInRow_def currentRow_def
        sourceOK_def)
  show ?thesis
    using Some f push [of None] push [OF ok'] drop
    by (auto simp: idleFetch_def sourceOK_def split: option.splits)
qed

lemma GetOr_loopInvariant: "loopInvariant s \<Longrightarrow> loopInvariant (GetOr n s)"
proof (induction n arbitrary: s)
  case 0
  then show ?case by simp
next
  case (Suc n)
  from Suc.prems have "loopInvariant (snd (idleFetch s))" by (rule idleFetch_loopInvariant)
  with Suc.IH show ?case
    by (cases "idleFetch s") (auto split: bool.splits)
qed

lemma iteration_endsWell:
  assumes inv: "loopInvariant s"
  shows "endsWell loopInvariant (iteration cfg inp s)"
proof -
  from inv have "cursorRow s < length (csvLines s)" by (rule loopInvariantD)
  then show ?thesis
    using keyStep_endsWell [OF GetOr_loopInvariant [OF inv]]
    by (simp add: iteration_def)
qed

lemma run_endsWell: "loopInvariant s \<Longrightarrow> endsWell loopInvariant (run cfg inps s)"
proof (induction inps arbitrary: s)
  case Nil
  then show ?case by simp
next
  case (Cons inp inps)
  from Cons.prems have "endsWell loopInvariant (iteration cfg inp s)"
    by (rule iteration_endsWell)
  with Cons.IH show ?case
    by (cases "iteration cfg inp s") simp_all
qed


subsection \<open>Keys and the insert and delete commands\<close>

lemmas keyDefs = keyCtrlL_def keyEscape_def keyDown_def
      keyCtrlN_def keyEnter_def keyUp_def keyCtrlP_def keyLeft_def keyCtrlB_def keyShiftTab_def
      keyRight_def keyCtrlF_def keyCtrlI_def keyCtrlA_def keyCtrlE_def keyF2_def quoteChar_def

lemma commandOf_keys:
  "commandOf ''D'' = DeleteRow" "commandOf ''d'' = DeleteCell" "commandOf ''x'' = DeleteCell"
  "commandOf ''o'' = NewRowAfter" "commandOf ''O'' = NewRowBefore"
  "commandOf ''i'' = InsertCell" "commandOf ''a'' = AppendCell"
  "commandOf ''r'' = ReplaceCell" "commandOf ''R'' = ReplaceCell" "commandOf keyF2 = ReplaceCell"
  "commandOf ''u'' = Undo" "commandOf ''w'' = WriteCmd" "commandOf [quoteChar] = ToggleQuote"
  "commandOf ''l'' = Right" "commandOf ''y'' = Yank"
  by (simp_all add: commandOf_def keyDefs)


lemma commandOf_insertDelete:
  "k \<in> insertDeleteKeys \<Longrightarrow>
     commandOf k \<in> {DeleteRow, DeleteCell, NewRowAfter, NewRowBefore, InsertCell, AppendCell}"
  unfolding insertDeleteKeys_def using commandOf_keys by auto

lemma goesOn_simps [simp]:
  "goesOn Panicked" "goesOn (Continue s)" "\<not> goesOn (Exited s)" "\<not> goesOn (Failed e)"
  by (simp_all add: goesOn_def)

lemma goesOn_replaceInCurrent [simp]: "goesOn (replaceInCurrent m col t s)"
  by (simp add: replaceInCurrent_def split: option.splits)

lemma goesOn_fillNewRow [simp]: "goesOn (fillNewRow cfg inp s)"
  by (simp add: fillNewRow_def Let_def split: sum.splits)

lemma goesOn_takeBackAppend [simp]: "goesOn (takeBackAppend cfg s)"
  by (simp add: takeBackAppend_def split: option.splits)

lemma goesOn_cmdDeleteRow: "goesOn (cmdDeleteRow cfg s)"
  by (simp add: cmdDeleteRow_def Let_def)

lemma goesOn_cmdDeleteCell: "goesOn (cmdDeleteCell cfg s)"
  by (simp add: cmdDeleteCell_def split: option.splits)

lemma goesOn_cmdNewRowAfter: "goesOn (cmdNewRowAfter cfg inp s)"
  by (simp add: cmdNewRowAfter_def Let_def)

lemma goesOn_cmdNewRowBefore: "goesOn (cmdNewRowBefore cfg inp s)"
  by (simp add: cmdNewRowBefore_def)

lemma goesOn_cmdInsertCell: "goesOn (cmdInsertCell cfg inp s)"
  by (simp add: cmdInsertCell_def split: option.splits sum.splits)

lemma goesOn_cmdAppendCell: "goesOn (cmdAppendCell cfg inp s)"
  by (simp add: cmdAppendCell_def split: option.splits sum.splits)

lemmas goesOn_insertDelete = goesOn_cmdDeleteRow goesOn_cmdDeleteCell goesOn_cmdNewRowAfter
  goesOn_cmdNewRowBefore goesOn_cmdInsertCell goesOn_cmdAppendCell

lemma dispatch_insertDelete_goesOn:
  "key inp \<in> insertDeleteKeys \<Longrightarrow> goesOn (dispatch cfg inp s)"
  using commandOf_insertDelete [of "key inp"]
  by (auto simp: dispatch_def goesOn_insertDelete)

lemma keyStep_insertDelete:
  assumes inv: "loopInvariant s" and k: "key inp \<in> insertDeleteKeys"
  shows "\<exists>s'. keyStep cfg inp s = Continue s' \<and> loopInvariant s'"
proof -
  have "endsWell loopInvariant (keyStep cfg inp s)" using inv by (rule keyStep_endsWell)
  moreover have "goesOn (keyStep cfg inp s)"
    using dispatch_insertDelete_goesOn [OF k, of cfg "s\<lparr>message := []\<rparr>"]
    by (cases "dispatch cfg inp (s\<lparr>message := []\<rparr>)")
       (simp_all add: keyStep_def clampCursor_def)
  ultimately show ?thesis by (cases "keyStep cfg inp s") simp_all
qed

lemma iteration_insertDelete:
  assumes inv: "loopInvariant s" and k: "key inp \<in> insertDeleteKeys"
  shows "\<exists>s'. iteration cfg inp s = Continue s' \<and> loopInvariant s'"
  using keyStep_insertDelete [OF GetOr_loopInvariant [OF inv] k] loopInvariantD(2) [OF inv]
  by (simp add: iteration_def)

lemma run_insertDelete:
  "loopInvariant s \<Longrightarrow> \<forall>inp \<in> set inps. key inp \<in> insertDeleteKeys \<Longrightarrow>
   \<exists>s'. run cfg inps s = Continue s' \<and> loopInvariant s'"
proof (induction inps arbitrary: s)
  case Nil
  then show ?case by simp
next
  case (Cons inp inps)
  then obtain s1 where s1: "iteration cfg inp s = Continue s1" "loopInvariant s1"
    using iteration_insertDelete [of s inp cfg] by auto
  with Cons.IH [of s1] Cons.prems show ?case by simp
qed

lemma deleteRow_refused:
  assumes inv: "loopInvariant s" and one: "length (csvLines s) = 1" and k: "key inp = ''D''"
  shows "keyStep cfg inp s = Continue (s\<lparr>message := checkWriteProtect cfg s\<rparr>)"
proof -
  note d = loopInvariantD [OF inv]
  have c: "commandOf (key inp) = DeleteRow"
    by (simp add: k commandOf_keys)
  have chk: "checkWriteProtect cfg (s\<lparr>message := []\<rparr>) = checkWriteProtect cfg s"
    by (simp add: checkWriteProtect_def)
  show ?thesis
    using d one
    by (auto simp: keyStep_def dispatch_def c cmdDeleteRow_def chk clampCursor_def)
qed

lemma deleteCell_sole:
  assumes inv: "loopInvariant s" and one: "length (Cell (currentRow s)) = 1"
    and k: "key inp \<in> {''d'', ''x''}" and free: "checkWriteProtectAndColumn cfg s = []"
  shows "keyStep cfg inp s =
           Continue (setCurrentRow
             ((currentRow s)\<lparr>Cell := [setText [] (modeOf cfg) (Cell (currentRow s) ! 0)]\<rparr>)
             (s\<lparr>message := []\<rparr>))"
proof -
  note d = loopInvariantD [OF inv]
  have c: "commandOf (key inp) = DeleteCell"
    using k commandOf_keys by auto
  have "checkWriteProtectAndColumn cfg (s\<lparr>message := []\<rparr>) = checkWriteProtectAndColumn cfg s"
    by (simp add: checkWriteProtectAndColumn_def checkWriteProtect_def)
  with free have chk: "checkWriteProtectAndColumn cfg (s\<lparr>message := []\<rparr>) = []" by simp
  obtain c0 where cells: "Cell (currentRow s) = [c0]"
    using one by (cases "Cell (currentRow s)") auto
  have col: "cursorCol s = 0" using d cells by simp
  show ?thesis
    using d one cells col
    by (simp add: keyStep_def dispatch_def c cmdDeleteCell_def chk replaceInCurrent_def
        Replace_def clampCursor_def setCurrentRow_def currentRow_def)
qed


lemma oneRowDocument_invariant: "loopInvariant oneRowDocument"
  by (simp add: oneRowDocument_def startState_def decodedRow_def loopInvariant_def
      documentOK_def cursorOK_def cursorInRow_def currentRow_def sourceOK_def)


lemma right_motion_is_clamped:
  "run plainConfig [press ''l'', press ''l''] oneRowDocument
     = Continue (oneRowDocument\<lparr>cursorCol := 1\<rparr>)"
  by (simp add: iteration_def keyStep_def dispatch_def commandOf_keys press_def
      oneRowDocument_def startState_def decodedRow_def clampCursor_def currentRow_def)


subsection \<open>Dialogs that return an error\<close>

lemma Delete_insertCell:
  assumes "n \<le> length (Cell row)" "Cell row \<noteq> []"
  shows "Delete (insertCell row n t m) (int n) m' = Some row"
proof -
  have "take n (take n (Cell row) @ setText t m emptyCell # drop n (Cell row)) @
        drop (Suc n) (take n (Cell row) @ setText t m emptyCell # drop n (Cell row)) = Cell row"
    using assms(1) by (simp add: min_def)
  moreover have "length (Cell (insertCell row n t m)) = Suc (length (Cell row))"
    using assms(1) by simp
  ultimately show ?thesis
    using assms by (simp add: Delete_def)
qed

lemma message_reset_twice [simp]: "s\<lparr>message := a, message := b\<rparr> = s\<lparr>message := b\<rparr>"
  by simp

lemma clampCursor_inside:
  "loopInvariant s \<Longrightarrow> clampCursor (s\<lparr>message := m\<rparr>) = Continue (s\<lparr>message := m\<rparr>)"
  by (auto simp: clampCursor_def loopInvariant_def cursorOK_def cursorInRow_def currentRow_def)

lemma check_ignores_message [simp]:
  "checkWriteProtect cfg (s\<lparr>message := m\<rparr>) = checkWriteProtect cfg s"
  "checkWriteProtectAndColumn cfg (s\<lparr>message := m\<rparr>) = checkWriteProtectAndColumn cfg s"
  by (simp_all add: checkWriteProtectAndColumn_def checkWriteProtect_def)

lemma cancelled_insert:
  "snd (readLine inp) = Some e \<Longrightarrow>
   \<exists>m. cmdInsertCell cfg inp (s\<lparr>message := []\<rparr>) = Continue (s\<lparr>message := m\<rparr>)"
  by (auto simp: cmdInsertCell_def)

lemma cancelled_replace:
  "loopInvariant s \<Longrightarrow> snd (readLine inp) = Some e \<Longrightarrow>
   \<exists>m. cmdReplaceCell cfg inp (s\<lparr>message := []\<rparr>) = Continue (s\<lparr>message := m\<rparr>)"
  by (auto simp: cmdReplaceCell_def loopInvariantD cursorInRow_def)

lemma cancelled_append:
  assumes inv: "loopInvariant s" and e: "snd (readLine inp) = Some e"
  shows "\<exists>m. cmdAppendCell cfg inp (s\<lparr>message := []\<rparr>) = Continue (s\<lparr>message := m\<rparr>)"
proof (cases "checkWriteProtectAndColumn cfg s \<noteq> [] \<or> soleEmptyCell (currentRow s)")
  case True
  with e show ?thesis by (auto simp: cmdAppendCell_def)
next
  case False
  note d = loopInvariantD [OF inv]
  let ?s0 = "s\<lparr>message := []\<rparr>"
  let ?n = "nat (cursorCol s + 1)"
  let ?row = "insertCell (currentRow s) ?n [] (modeOf cfg)"
  have ins: "Insert (currentRow ?s0) (cursorCol ?s0 + 1) [] (modeOf cfg) = Some ?row"
    using d by (simp add: Insert_def)
  have n: "?n \<le> length (Cell (currentRow s))" "int ?n = cursorCol s + 1" using d by auto
  have del: "Delete ?row (cursorCol s + 1) (modeOf cfg) = Some (currentRow s)"
    using Delete_insertCell [OF n(1) d(5)] n(2) by simp
  have cur: "currentRow ((setCurrentRow ?row ?s0)\<lparr>cursorCol := cursorCol s + 1\<rparr>) = ?row"
    using d(2) by (simp add: currentRow_def setCurrentRow_def)
  have undone: "takeBackAppend cfg ((setCurrentRow ?row ?s0)\<lparr>cursorCol := cursorCol s + 1\<rparr>)
        = Continue ?s0"
    using del cur d(2)
    by (simp add: takeBackAppend_def) (simp add: setCurrentRow_def currentRow_def)
  from False e ins undone show ?thesis
    by (auto simp: cmdAppendCell_def)
qed


lemma cancelled_dialog_step:
  assumes inv: "loopInvariant s" and e: "snd (readLine inp) = Some e"
    and k: "commandOf (key inp) \<in> {InsertCell, AppendCell, ReplaceCell}"
  shows "\<exists>m. keyStep cfg inp s = Continue (s\<lparr>message := m\<rparr>)"
proof -
  have "\<exists>m. dispatch cfg inp (s\<lparr>message := []\<rparr>) = Continue (s\<lparr>message := m\<rparr>)"
    using k cancelled_insert [OF e, of cfg s] cancelled_replace [OF inv e, of cfg]
      cancelled_append [OF inv e, of cfg]
    by (auto simp: dispatch_def)
  then obtain m where "dispatch cfg inp (s\<lparr>message := []\<rparr>) = Continue (s\<lparr>message := m\<rparr>)"
    by blast
  then have "keyStep cfg inp s = Continue (s\<lparr>message := m\<rparr>)"
    using clampCursor_inside [OF inv, of m] by (simp add: keyStep_def)
  then show ?thesis by blast
qed


subsection \<open>Line terminators under the row commands\<close>

lemma terminatorsOK_alt:
  "terminatorsOK rows \<longleftrightarrow> (\<forall>row \<in> set (butlast rows). Term row \<noteq> [])"
proof
  assume ok: "terminatorsOK rows"
  show "\<forall>row \<in> set (butlast rows). Term row \<noteq> []"
  proof
    fix row assume "row \<in> set (butlast rows)"
    then obtain i where i: "i < length (butlast rows)" "butlast rows ! i = row"
      by (auto simp: in_set_conv_nth)
    then have "i < length rows" "Suc i \<noteq> length rows" "rows ! i = row"
      by (auto simp: nth_butlast)
    with ok show "Term row \<noteq> []" unfolding terminatorsOK_def by blast
  qed
next
  assume a: "\<forall>row \<in> set (butlast rows). Term row \<noteq> []"
  show "terminatorsOK rows"
    unfolding terminatorsOK_def
  proof (intro allI impI)
    fix i assume i: "i < length rows" and t: "Term (rows ! i) = []"
    show "Suc i = length rows"
    proof (rule ccontr)
      assume "Suc i \<noteq> length rows"
      with i have "i < length (butlast rows)" by simp
      then have "butlast rows ! i \<in> set (butlast rows)" by (rule nth_mem)
      with a i \<open>i < length (butlast rows)\<close> t show False by (simp add: nth_butlast)
    qed
  qed
qed

lemma butlast_insert_inner:
  "k < length rows \<Longrightarrow> butlast (take k rows @ r # drop k rows) = take k rows @ r # butlast (drop k rows)"
  by (simp add: butlast_append)

lemma terminatorsOK_insert_inner:
  assumes "terminatorsOK rows" "Term r \<noteq> []" "k < length rows"
  shows "terminatorsOK (take k rows @ r # drop k rows)"
proof -
  have "set (take k rows) \<union> set (butlast (drop k rows)) \<subseteq> set (butlast rows)"
  proof -
    have "butlast rows = take k rows @ butlast (drop k rows)"
      using assms(3) by (metis append_take_drop_id butlast_append drop_eq_Nil2 not_le)
    then show ?thesis by simp
  qed
  with assms show ?thesis
    unfolding terminatorsOK_alt butlast_insert_inner [OF assms(3)] by auto
qed

lemma terminatorsOK_append:
  "\<forall>row \<in> set rows. Term row \<noteq> [] \<Longrightarrow> terminatorsOK (rows @ [r])"
  by (simp add: terminatorsOK_alt)

lemma terminatorsOK_last_nonempty:
  "terminatorsOK rows \<Longrightarrow> rows \<noteq> [] \<Longrightarrow> Term (last rows) \<noteq> [] \<Longrightarrow>
   \<forall>row \<in> set rows. Term row \<noteq> []"
  by (metis Un_iff append_butlast_last_id empty_iff insert_iff list.set(1) list.simps(15)
      set_append terminatorsOK_alt)

lemma terminatorsOK_update_same:
  "terminatorsOK rows \<Longrightarrow> i < length rows \<Longrightarrow> Term r = Term (rows ! i) \<Longrightarrow>
   terminatorsOK (rows[i := r])"
  unfolding terminatorsOK_def by (auto simp: nth_list_update)

lemma terminatorsOK_update_last:
  "terminatorsOK rows \<Longrightarrow> Suc i = length rows \<Longrightarrow> terminatorsOK (rows[i := r])"
  unfolding terminatorsOK_def by (auto simp: nth_list_update)

lemma terminatorsOK_update_nonempty:
  "terminatorsOK rows \<Longrightarrow> Term r \<noteq> [] \<Longrightarrow> terminatorsOK (rows[i := r])"
  unfolding terminatorsOK_def
  by (metis length_list_update nth_list_update_eq nth_list_update_neq)

lemma terminatorsOK_Remove_inner:
  assumes "terminatorsOK rows" "Suc n < length rows"
  shows "terminatorsOK (Remove rows n)"
proof -
  have "butlast (Remove rows n) = take n rows @ butlast (drop (Suc n) rows)"
    using assms(2) by (simp add: Remove_def butlast_append)
  moreover have "butlast rows = take (Suc n) rows @ butlast (drop (Suc n) rows)"
    using assms(2) by (metis append_take_drop_id butlast_append drop_eq_Nil2 not_le)
  moreover have "set (take n rows) \<subseteq> set (take (Suc n) rows)"
    by (simp add: set_take_subset_set_take)
  ultimately show ?thesis
    using assms(1) unfolding terminatorsOK_alt by auto
qed

lemma terminatorsOK_Remove_last:
  assumes "terminatorsOK rows" "Suc n = length rows"
  shows "\<forall>row \<in> set (Remove rows n). Term row \<noteq> []"
proof -
  from assms(2) have "n = length rows - 1" by simp
  then have "Remove rows n = butlast rows"
    using assms(2) by (simp add: Remove_def butlast_conv_take)
  with assms(1) show ?thesis by (simp add: terminatorsOK_alt)
qed


lemma fillNewRow_rows:
  assumes a: "afterCommand s"
  shows "\<exists>s' r. fillNewRow cfg inp s = Continue s' \<and> cursorRow s' = cursorRow s \<and>
           csvLines s' = (csvLines s)[cursorRow s := r] \<and> Term r = Term (currentRow s)"
proof -
  from a have ne: "Cell (currentRow s) \<noteq> []" and c0: "0 \<le> cursorCol s"
    and cur: "cursorRow s < length (csvLines s)"
    by (simp_all add: afterCommand_def currentRow_Cell)
  let ?col = "if int (length (Cell (currentRow s))) \<le> cursorCol s
              then int (length (Cell (currentRow s))) - 1 else cursorCol s"
  from ne c0 have col: "0 \<le> ?col" "?col < int (length (Cell (currentRow s)))"
    by (auto simp: Suc_le_eq)
  show ?thesis
  proof (cases "validate cfg (int (cursorRow s)) ?col (fst (readLine inp))")
    case (Inl e)
    then have "fillNewRow cfg inp s = Continue (s\<lparr>message := errorText e\<rparr>)"
      by (simp add: fillNewRow_def Let_def)
    moreover have "csvLines s = (csvLines s)[cursorRow s := currentRow s]"
      by (simp add: currentRow_def)
    ultimately show ?thesis by (intro exI [of _ "s\<lparr>message := errorText e\<rparr>"] exI [of _ "currentRow s"]) simp
  next
    case (Inr tx)
    obtain r where r: "Replace (currentRow s) ?col tx (modeOf cfg) = Some r"
      using col by (simp add: Replace_def)
    then have "Term r = Term (currentRow s)" by (auto simp: Replace_Some)
    moreover have "fillNewRow cfg inp s = Continue (setCurrentRow r s)"
      using Inr r by (simp add: fillNewRow_def Let_def replaceInCurrent_def)
    ultimately show ?thesis
      by (intro exI [of _ "setCurrentRow r s"] exI [of _ r]) (simp add: setCurrentRow_def)
  qed
qed

lemma newRowAfter_terminators:
  assumes dt: "DefaultTerm (modeOf cfg) \<noteq> []" and a: "afterCommand s"
    and ok: "terminatorsOK (csvLines s)"
  shows "\<exists>s'. cmdNewRowAfter cfg inp s = Continue s' \<and> terminatorsOK (csvLines s')"
proof (cases "checkWriteProtect cfg s \<noteq> []")
  case True
  with ok show ?thesis by (simp add: cmdNewRowAfter_def)
next
  case False
  from a have cur: "cursorRow s < length (csvLines s)" by (simp add: afterCommand_def)
  define s1 where "s1 = (if Term (currentRow s) = []
      then setCurrentRow ((currentRow s)\<lparr>Term := DefaultTerm (modeOf cfg)\<rparr>) s else s)"
  define newRow where
    "newRow = padded cfg ((NewRow (modeOf cfg))\<lparr>Term := Term (currentRow s)\<rparr>) (currentRow s1)"
  define s2 where "s2 = s1\<lparr>csvLines := InsertAfter (csvLines s1) (cursorRow s1) newRow,
                 cursorRow := Suc (cursorRow s1)\<rparr>"
  have cmd: "cmdNewRowAfter cfg inp s = fillNewRow cfg inp s2"
    using False by (simp add: cmdNewRowAfter_def Let_def s1_def newRow_def s2_def)
  have ne: "Cell (currentRow s) \<noteq> []"
    using a by (simp add: afterCommand_def currentRow_Cell)
  have a1: "afterCommand s1"
    using a ne by (auto simp: s1_def intro: afterCommand_setCurrentRow)
  have nr: "Cell newRow \<noteq> []" by (simp add: newRow_def padded_Cell NewRow_def)
  have nt: "Term newRow = Term (currentRow s)" by (simp add: newRow_def padded_Term)
  have cur1: "cursorRow s1 = cursorRow s" "length (csvLines s1) = length (csvLines s)"
    by (simp_all add: s1_def)
  have a2: "afterCommand s2"
    using a1 nr cur cur1
    by (simp add: s2_def afterCommand_def documentOK_InsertAfter length_InsertAfter)
  have rows2: "csvLines s2 = take (Suc (cursorRow s)) (csvLines s1) @ newRow #
      drop (Suc (cursorRow s)) (csvLines s1)"
    by (simp add: s2_def InsertAfter_def cur1)
  have new_at: "currentRow s2 = newRow"
    using cur cur1 by (simp add: currentRow_def s2_def InsertAfter_def nth_append min_def)
  have ok2: "terminatorsOK (csvLines s2)"
  proof (cases "Suc (cursorRow s) = length (csvLines s)")
    case last: True
    show ?thesis
    proof (cases "Term (currentRow s) = []")
      case True
      then have rows1: "csvLines s1 = (csvLines s)[cursorRow s := (currentRow s)\<lparr>Term := DefaultTerm (modeOf cfg)\<rparr>]"
        by (simp add: s1_def setCurrentRow_def)
      have "terminatorsOK (csvLines s1)"
        unfolding rows1 using ok dt by (intro terminatorsOK_update_nonempty) simp_all
      moreover have "csvLines s1 \<noteq> []" using cur cur1 by auto
      moreover have "last (csvLines s1) = (currentRow s)\<lparr>Term := DefaultTerm (modeOf cfg)\<rparr>"
      proof -
        from last have "cursorRow s = length (csvLines s) - 1" by simp
        moreover from cur have "csvLines s \<noteq> []" by auto
        ultimately show ?thesis by (simp add: rows1 last_list_update)
      qed
      ultimately have "\<forall>row \<in> set (csvLines s1). Term row \<noteq> []"
        using dt by (intro terminatorsOK_last_nonempty) simp_all
      then show ?thesis
        using last cur1 by (simp add: rows2 terminatorsOK_append)
    next
      case False
      then have rows1: "csvLines s1 = csvLines s" by (simp add: s1_def)
      have "last (csvLines s) = currentRow s"
      proof -
        from last have "cursorRow s = length (csvLines s) - 1" by simp
        moreover from cur have "csvLines s \<noteq> []" by auto
        ultimately show ?thesis by (simp add: last_conv_nth currentRow_def)
      qed
      with ok False cur have "\<forall>row \<in> set (csvLines s). Term row \<noteq> []"
        by (intro terminatorsOK_last_nonempty) auto
      then show ?thesis
        using last by (simp add: rows2 rows1 terminatorsOK_append)
    qed
  next
    case inner: False
    with cur have lt: "Suc (cursorRow s) < length (csvLines s1)" using cur1 by simp
    then have notlast: "Term (currentRow s) \<noteq> []"
      using ok inner cur unfolding terminatorsOK_def currentRow_def by blast
    then have "csvLines s1 = csvLines s" by (simp add: s1_def)
    with ok lt notlast nt show ?thesis
      unfolding rows2 by (intro terminatorsOK_insert_inner) simp_all
  qed
  from fillNewRow_rows [OF a2, of cfg inp] obtain s' r where
    s': "fillNewRow cfg inp s2 = Continue s'" "csvLines s' = (csvLines s2)[cursorRow s2 := r]"
    "Term r = Term (currentRow s2)" by blast
  have "cursorRow s2 < length (csvLines s2)" using a2 by (simp add: afterCommand_def)
  with ok2 s' have "terminatorsOK (csvLines s')"
    by (simp add: terminatorsOK_update_same currentRow_def)
  with cmd s' show ?thesis by simp
qed

lemma newRowBefore_terminators:
  assumes dt: "DefaultTerm (modeOf cfg) \<noteq> []" and a: "afterCommand s"
    and ok: "terminatorsOK (csvLines s)"
  shows "\<exists>s'. cmdNewRowBefore cfg inp s = Continue s' \<and> terminatorsOK (csvLines s')"
proof (cases "checkWriteProtect cfg s \<noteq> []")
  case True
  with ok show ?thesis by (simp add: cmdNewRowBefore_def)
next
  case False
  from a have cur: "cursorRow s < length (csvLines s)" by (simp add: afterCommand_def)
  define newRow where "newRow = padded cfg (NewRow (modeOf cfg)) (currentRow s)"
  define s2 where "s2 = s\<lparr>csvLines := InsertBefore (csvLines s) (cursorRow s) newRow\<rparr>"
  have cmd: "cmdNewRowBefore cfg inp s = fillNewRow cfg inp s2"
    using False by (simp add: cmdNewRowBefore_def newRow_def s2_def)
  have nr: "Cell newRow \<noteq> []" by (simp add: newRow_def padded_Cell NewRow_def)
  have nt: "Term newRow \<noteq> []" using dt by (simp add: newRow_def padded_Term NewRow_def)
  have a2: "afterCommand s2"
    using a nr cur
    by (simp add: s2_def afterCommand_def documentOK_InsertBefore length_InsertBefore)
  have ok2: "terminatorsOK (csvLines s2)"
    using ok nt cur
    by (simp add: s2_def InsertBefore_def terminatorsOK_insert_inner)
  from fillNewRow_rows [OF a2, of cfg inp] obtain s' r where
    s': "fillNewRow cfg inp s2 = Continue s'" "csvLines s' = (csvLines s2)[cursorRow s2 := r]"
    "Term r = Term (currentRow s2)" by blast
  have "cursorRow s2 < length (csvLines s2)" using a2 by (simp add: afterCommand_def)
  with ok2 s' have "terminatorsOK (csvLines s')"
    by (simp add: terminatorsOK_update_same currentRow_def)
  with cmd s' show ?thesis by simp
qed

lemma deleteRow_terminators:
  assumes a: "afterCommand s" and ok: "terminatorsOK (csvLines s)"
  shows "\<exists>s'. cmdDeleteRow cfg s = Continue s' \<and> terminatorsOK (csvLines s')"
proof (cases "checkWriteProtect cfg s \<noteq> [] \<or> length (csvLines s) \<le> 1")
  case True
  with ok show ?thesis by (auto simp: cmdDeleteRow_def)
next
  case False
  then have long: "1 < length (csvLines s)" by simp
  from a have cur: "cursorRow s < length (csvLines s)" by (simp add: afterCommand_def)
  have len': "length (Remove (csvLines s) (cursorRow s)) = length (csvLines s) - 1"
    using cur by (rule length_Remove)
  show ?thesis
  proof (cases "Suc (cursorRow s) < length (csvLines s)")
    case True
    then have "terminatorsOK (Remove (csvLines s) (cursorRow s))"
      using ok by (intro terminatorsOK_Remove_inner)
    with False True len' show ?thesis
      by (auto simp: cmdDeleteRow_def Let_def)
  next
    case last: False
    with cur have l: "Suc (cursorRow s) = length (csvLines s)" by simp
    then have all: "\<forall>row \<in> set (Remove (csvLines s) (cursorRow s)). Term row \<noteq> []"
      using ok by (intro terminatorsOK_Remove_last)
    then have "terminatorsOK (Remove (csvLines s) (cursorRow s))"
      by (metis in_set_butlastD terminatorsOK_alt)
    then have "terminatorsOK ((Remove (csvLines s) (cursorRow s))[cursorRow s - 1 := r])" for r
      using l len' long by (intro terminatorsOK_update_last) simp_all
    with False l len' long show ?thesis
      by (auto simp: cmdDeleteRow_def Let_def setCurrentRow_def)
  qed
qed


lemma clampCursor_rows:
  assumes "afterCommand s"
  shows "\<exists>s'. clampCursor s = Continue s' \<and> csvLines s' = csvLines s"
  using assms by (auto simp: clampCursor_def afterCommand_def)

lemma keyStep_rows:
  assumes inv: "loopInvariant s" and d: "dispatch cfg inp (s\<lparr>message := []\<rparr>) = Continue s1"
  shows "\<exists>s'. keyStep cfg inp s = Continue s' \<and> csvLines s' = csvLines s1"
proof -
  have "endsWell afterCommand (dispatch cfg inp (s\<lparr>message := []\<rparr>))"
    using inv by (intro dispatch_endsWell) simp
  with d have "afterCommand s1" by simp
  from clampCursor_rows [OF this] d show ?thesis by (simp add: keyStep_def)
qed

lemma newRowAfter_last:
  assumes a: "afterCommand s" and free: "checkWriteProtect cfg s = []"
    and l: "Suc (cursorRow s) = length (csvLines s)" and t: "Term (currentRow s) = []"
  shows "\<exists>s'. cmdNewRowAfter cfg inp s = Continue s' \<and>
           length (csvLines s') = Suc (length (csvLines s)) \<and>
           Term (last (csvLines s')) = [] \<and>
           Term (csvLines s' ! cursorRow s) = DefaultTerm (modeOf cfg)"
proof -
  from a have cur: "cursorRow s < length (csvLines s)" by (simp add: afterCommand_def)
  define s1 where "s1 = setCurrentRow ((currentRow s)\<lparr>Term := DefaultTerm (modeOf cfg)\<rparr>) s"
  define newRow where
    "newRow = padded cfg ((NewRow (modeOf cfg))\<lparr>Term := Term (currentRow s)\<rparr>) (currentRow s1)"
  define s2 where "s2 = s1\<lparr>csvLines := InsertAfter (csvLines s1) (cursorRow s1) newRow,
                 cursorRow := Suc (cursorRow s1)\<rparr>"
  have cmd: "cmdNewRowAfter cfg inp s = fillNewRow cfg inp s2"
    using free t by (simp add: cmdNewRowAfter_def Let_def s1_def newRow_def s2_def)
  have ne: "Cell (currentRow s) \<noteq> []"
    using a by (simp add: afterCommand_def currentRow_Cell)
  have a1: "afterCommand s1"
    using a ne by (auto simp: s1_def intro: afterCommand_setCurrentRow)
  have nr: "Cell newRow \<noteq> []" by (simp add: newRow_def padded_Cell NewRow_def)
  have nt: "Term newRow = []" using t by (simp add: newRow_def padded_Term)
  have cur1: "cursorRow s1 = cursorRow s" "length (csvLines s1) = length (csvLines s)"
    by (simp_all add: s1_def)
  have a2: "afterCommand s2"
    using a1 nr cur cur1
    by (simp add: s2_def afterCommand_def documentOK_InsertAfter length_InsertAfter)
  have rows2: "csvLines s2 = csvLines s1 @ [newRow]" "cursorRow s2 = Suc (cursorRow s)"
    using l cur1 by (simp_all add: s2_def InsertAfter_def)
  have new_at: "currentRow s2 = newRow"
    using l cur1 by (simp add: currentRow_def rows2 nth_append)
  from fillNewRow_rows [OF a2, of cfg inp] obtain s' r where
    s': "fillNewRow cfg inp s2 = Continue s'" "csvLines s' = (csvLines s2)[cursorRow s2 := r]"
    "Term r = Term (currentRow s2)" by blast
  have "(csvLines s1 @ [newRow])[length (csvLines s1) := r] = csvLines s1 @ [r]"
    by (rule list_update_length)
  then have rows': "csvLines s' = csvLines s1 @ [r]"
    using s'(2) l cur1 by (simp add: rows2)
  have "csvLines s1 ! cursorRow s = (currentRow s)\<lparr>Term := DefaultTerm (modeOf cfg)\<rparr>"
    using cur by (simp add: s1_def setCurrentRow_def)
  then have "Term (csvLines s' ! cursorRow s) = DefaultTerm (modeOf cfg)"
    using cur cur1 by (simp add: rows' nth_append)
  moreover have "length (csvLines s') = Suc (length (csvLines s))"
    "Term (last (csvLines s')) = []"
    using s'(3) new_at nt cur1 by (simp_all add: rows')
  ultimately show ?thesis using cmd s'(1) by simp
qed

lemma deleteRow_last:
  assumes a: "afterCommand s" and free: "checkWriteProtect cfg s = []"
    and long: "1 < length (csvLines s)" and l: "Suc (cursorRow s) = length (csvLines s)"
  shows "\<exists>s'. cmdDeleteRow cfg s = Continue s' \<and>
           length (csvLines s') = length (csvLines s) - 1 \<and>
           Term (last (csvLines s')) = Term (currentRow s)"
proof -
  let ?rows = "Remove (csvLines s) (cursorRow s)"
  from l have cur: "cursorRow s < length (csvLines s)" by simp
  have len': "length ?rows = length (csvLines s) - 1" using cur by (rule length_Remove)
  let ?r = "(?rows ! (cursorRow s - 1))\<lparr>Term := Term (currentRow s)\<rparr>"
  have cmd: "cmdDeleteRow cfg s = Continue (setCurrentRow ?r
      (s\<lparr>csvLines := ?rows, removedRows := removedRows s @ [currentRow s],
         cursorRow := cursorRow s - 1\<rparr>))"
    using free long l len' by (simp add: cmdDeleteRow_def Let_def)
  have idx: "cursorRow s - 1 = length ?rows - 1" "?rows \<noteq> []"
    using l len' long by auto
  have "last (?rows[cursorRow s - 1 := ?r]) = ?r"
    unfolding idx(1) using idx(2) by (simp add: last_list_update)
  then show ?thesis
    unfolding cmd using len' by (simp add: setCurrentRow_def)
qed

lemma unterminatedDocument_invariant: "loopInvariant unterminatedDocument"
  by (simp add: unterminatedDocument_def startState_def decodedRow_def loopInvariant_def
      documentOK_def cursorOK_def cursorInRow_def currentRow_def sourceOK_def)

lemma unterminatedDocument_terminators: "terminatorsOK (csvLines unterminatedDocument)"
  by (simp add: unterminatedDocument_def startState_def terminatorsOK_def)


subsection \<open>Ingestion and the read-only mode\<close>

lemma firstError_Cons:
  "(\<forall>i < n. snd (xs ! i) = None) \<and> snd (xs ! n) = Some e \<Longrightarrow>
   (\<forall>i < Suc n. snd (((r, None) # xs) ! i) = None) \<and> snd (((r, None) # xs) ! Suc n) = Some e"
  by (auto simp: nth_Cons split: nat.splits)

lemma drain_Cons_None:
  "drain \<lparr>pending = (row, None) # xs, atEnd = e\<rparr> rows
     = drain \<lparr>pending = xs, atEnd = e\<rparr> (Push rows row)"
  by (subst drain.simps) (simp add: fetchCall_def)

lemma drain_Cons_EOF:
  "drain \<lparr>pending = (row, Some EOF) # xs, atEnd = e\<rparr> rows
     = Inr (\<lparr>pending = xs, atEnd = e\<rparr>, Push rows row)"
  by (subst drain.simps) (simp add: fetchCall_def)

lemma drain_Nil:
  "drain \<lparr>pending = [], atEnd = e\<rparr> rows = Inr (\<lparr>pending = [], atEnd = e\<rparr>, Push rows e)"
  by (subst drain.simps) (simp add: fetchCall_def)

lemma drain_Inr_deliveries:
  "drain src rows = Inr (src', rows') \<Longrightarrow>
   \<exists>n. firstErrorAt n src EOF \<and> rows' = rows @ map fst (deliveries (Suc n) src)"
proof (induction src rows arbitrary: src' rows' rule: drain.induct)
  case (1 src rows)
  obtain row err src1 where f: "fetchCall src = ((row, err), src1)" by (metis prod.exhaust)
  show ?case
  proof (cases err)
    case None
    with "1.prems" f have rec: "drain src1 (Push rows row) = Inr (src', rows')"
      by (subst (asm) drain.simps) simp
    from "1.IH" [OF f [symmetric] refl None rec]
    obtain n where n: "firstErrorAt n src1 EOF"
      "rows' = Push rows row @ map fst (deliveries (Suc n) src1)" by blast
    have d: "deliveries (Suc (Suc n)) src = (row, None) # deliveries (Suc n) src1"
      using f None by simp
    have "firstErrorAt (Suc n) src EOF"
      using n(1) unfolding firstErrorAt_def d by (rule firstError_Cons)
    moreover have "rows' = rows @ map fst (deliveries (Suc (Suc n)) src)"
      using n(2) unfolding d by (simp add: Push_def)
    ultimately show ?thesis by blast
  next
    case (Some e)
    with "1.prems" f have e: "e = EOF" and r: "rows' = Push rows row"
      by (subst (asm) drain.simps, simp split: if_splits)+
    have "firstErrorAt 0 src EOF" using f Some e by (simp add: firstErrorAt_def)
    moreover have "rows' = rows @ map fst (deliveries (Suc 0) src)"
      using f r by (simp add: Push_def)
    ultimately show ?thesis by blast
  qed
qed

lemma drain_Inl_deliveries:
  "drain src rows = Inl e \<Longrightarrow> e \<noteq> EOF \<and> (\<exists>n. firstErrorAt n src e)"
proof (induction src rows rule: drain.induct)
  case (1 src rows)
  obtain row err src1 where f: "fetchCall src = ((row, err), src1)" by (metis prod.exhaust)
  show ?case
  proof (cases err)
    case None
    with "1.prems" f have rec: "drain src1 (Push rows row) = Inl e"
      by (subst (asm) drain.simps) simp
    from "1.IH" [OF f [symmetric] refl None rec]
    obtain n where n: "e \<noteq> EOF" "firstErrorAt n src1 e" by blast
    have d: "deliveries (Suc (Suc n)) src = (row, None) # deliveries (Suc n) src1"
      using f None by simp
    have "firstErrorAt (Suc n) src e"
      using n(2) unfolding firstErrorAt_def d by (rule firstError_Cons)
    with n(1) show ?thesis by blast
  next
    case (Some e')
    with "1.prems" f have e: "e' = e" "e \<noteq> EOF"
      by (subst (asm) drain.simps, simp split: if_splits)+
    have "firstErrorAt 0 src e" using f Some e by (simp add: firstErrorAt_def)
    with e show ?thesis by blast
  qed
qed

lemma prefetch_replicate:
  "prefetch n \<lparr>pending = replicate n (row, None) @ rest, atEnd = e\<rparr> rows
     = Inr (Some \<lparr>pending = rest, atEnd = e\<rparr>, rows @ replicate n row)"
proof (induction n arbitrary: rows)
  case 0
  then show ?case by simp
next
  case (Suc n)
  then show ?case
    by (simp add: fetchCall_def Push_def replicate_app_Cons_same)
qed

lemma trailingRow_empty: "isEmptyRow trailingRow"
  by (simp add: isEmptyRow_def trailingRow_def decodedRow_def decode_def)

lemma open_hundredLines:
  "openDocument plainConfig (Some hundredLines)
     = Inr (startState (replicate 100 (decodedRow [''x''] [LF]))
              (Some \<lparr>pending = [(trailingRow, Some EOF)], atEnd = trailingRow\<rparr>))"
  using prefetch_replicate [of 100 "decodedRow [''x''] [LF]" "[(trailingRow, Some EOF)]" trailingRow "[]"]
  by (simp add: openDocument_def hundredLines_def)

lemma open_oneLineLeft:
  "openDocument plainConfig (Some oneLineLeft) = Inr (startState [decodedRow [''y''] [LF]] None)"
  using trailingRow_empty
  by (simp add: openDocument_def oneLineLeft_def eval_nat_numeral fetchCall_def Push_def)

lemma checkWriteProtect_readOnly: "ReadOnly cfg \<Longrightarrow> checkWriteProtect cfg s \<noteq> []"
  by (simp add: checkWriteProtect_def msgProtectHeader_def msgReadOnly_def)

lemma blocked_rows:
  assumes "checkWriteProtect cfg s \<noteq> []"
  shows "cmdNewRowAfter cfg inp s = Continue (s\<lparr>message := checkWriteProtect cfg s\<rparr>)"
    "cmdNewRowBefore cfg inp s = Continue (s\<lparr>message := checkWriteProtect cfg s\<rparr>)"
    "cmdDeleteRow cfg s = Continue (s\<lparr>message := checkWriteProtect cfg s\<rparr>)"
    "cmdReplaceCell cfg inp s = Continue (s\<lparr>message := checkWriteProtect cfg s\<rparr>)"
    "cmdPaste cfg s = Continue (s\<lparr>message := checkWriteProtect cfg s\<rparr>)"
  using assms
  by (simp_all add: cmdNewRowAfter_def cmdNewRowBefore_def cmdDeleteRow_def cmdReplaceCell_def
      cmdPaste_def)

lemma blocked_cells:
  assumes "checkWriteProtectAndColumn cfg s \<noteq> []"
  shows "cmdInsertCell cfg inp s = Continue (s\<lparr>message := checkWriteProtectAndColumn cfg s\<rparr>)"
    "cmdAppendCell cfg inp s = Continue (s\<lparr>message := checkWriteProtectAndColumn cfg s\<rparr>)"
    "cmdDeleteCell cfg s = Continue (s\<lparr>message := checkWriteProtectAndColumn cfg s\<rparr>)"
  using assms by (simp_all add: cmdInsertCell_def cmdAppendCell_def cmdDeleteCell_def)

lemma read_only_blocks_guarded_commands:
  assumes ro: "ReadOnly cfg"
    and c: "commandOf (key inp) \<in> {NewRowAfter, NewRowBefore, DeleteRow, InsertCell, AppendCell,
              ReplaceCell, Paste, DeleteCell}"
  shows "\<exists>m. m \<noteq> [] \<and> dispatch cfg inp s = Continue (s\<lparr>message := m\<rparr>)"
proof -
  have m: "checkWriteProtect cfg s \<noteq> []" using ro by (rule checkWriteProtect_readOnly)
  then have m2: "checkWriteProtectAndColumn cfg s \<noteq> []"
    by (simp add: checkWriteProtectAndColumn_def)
  have "dispatch cfg inp s = Continue (s\<lparr>message := checkWriteProtect cfg s\<rparr>) \<or>
        dispatch cfg inp s = Continue (s\<lparr>message := checkWriteProtectAndColumn cfg s\<rparr>)"
  proof (cases "commandOf (key inp)")
  qed (use c in \<open>simp_all add: dispatch_def blocked_rows [OF m] blocked_cells [OF m2]\<close>)
  with m m2 show ?thesis by blast
qed


section \<open>Claim C7: symmetry of forward and backward search\<close>





section \<open>Claim C2: rows and cells never run out\<close>

text \<open>
  Claim C2.  From a state whose document has at least one row, each with at least one
  cell (and whose cursor lies inside it), any finite sequence of the insert and delete
  keys \<open>D\<close>, \<open>d\<close>, \<open>x\<close>, \<open>o\<close>, \<open>O\<close>, \<open>i\<close>, \<open>a\<close> runs without panic and without leaving the
  loop, and ends in a state whose document again has at least one row, each with at
  least one cell.  With a single row left, \<open>D\<close> changes nothing but the status message;
  \<open>d\<close> or \<open>x\<close> on a row's sole cell, when not write-protected, replaces that cell by an
  empty cell.
\<close>

theorem insert_delete_keep_rows_and_cells:
  assumes inv: "loopInvariant s"
    and keys: "\<forall>inp \<in> set inps. key inp \<in> insertDeleteKeys"
  shows "(\<exists>s'. run cfg inps s = Continue s' \<and> documentOK (csvLines s') \<and> cursorOK s') \<and>
         (\<forall>inp :: Input. length (csvLines s) = 1 \<and> key inp = ''D'' \<longrightarrow>
            keyStep cfg inp s = Continue (s\<lparr>message := checkWriteProtect cfg s\<rparr>)) \<and>
         (\<forall>inp :: Input. length (Cell (currentRow s)) = 1 \<and> key inp \<in> {''d'', ''x''} \<and>
                checkWriteProtectAndColumn cfg s = [] \<longrightarrow>
            keyStep cfg inp s =
              Continue (setCurrentRow
                ((currentRow s)\<lparr>Cell := [setText [] (modeOf cfg) (Cell (currentRow s) ! 0)]\<rparr>)
                (s\<lparr>message := []\<rparr>)))"
proof (intro conjI allI impI)
  from run_insertDelete [OF inv keys]
  show "\<exists>s'. run cfg inps s = Continue s' \<and> documentOK (csvLines s') \<and> cursorOK s'"
    by (auto simp: loopInvariant_def)
next
  fix inp :: Input assume "length (csvLines s) = 1 \<and> key inp = ''D''"
  then show "keyStep cfg inp s = Continue (s\<lparr>message := checkWriteProtect cfg s\<rparr>)"
    using deleteRow_refused [OF inv] by blast
next
  fix inp :: Input
  assume "length (Cell (currentRow s)) = 1 \<and> key inp \<in> {''d'', ''x''} \<and>
          checkWriteProtectAndColumn cfg s = []"
  then show "keyStep cfg inp s =
              Continue (setCurrentRow
                ((currentRow s)\<lparr>Cell := [setText [] (modeOf cfg) (Cell (currentRow s) ! 0)]\<rparr>)
                (s\<lparr>message := []\<rparr>))"
    using deleteCell_sole [OF inv] by blast
qed

theorem insert_delete_keep_rows_and_cells_witness:
  "loopInvariant oneRowDocument \<and>
   key (press ''D'') \<in> insertDeleteKeys \<and> key (pressAndType ''i'' ''c'') \<in> insertDeleteKeys \<and>
   key (press ''x'') \<in> insertDeleteKeys \<and>
   (\<exists>s'. run plainConfig [press ''D'', pressAndType ''i'' ''c'', press ''x''] oneRowDocument
            = Continue s' \<and> documentOK (csvLines s') \<and> cursorOK s') \<and>
   length (csvLines oneRowDocument) = 1 \<and>
   keyStep plainConfig (press ''D'') oneRowDocument
     = Continue (oneRowDocument\<lparr>message := checkWriteProtect plainConfig oneRowDocument\<rparr>)"
proof -
  have k: "key (press ''D'') \<in> insertDeleteKeys" "key (pressAndType ''i'' ''c'') \<in> insertDeleteKeys"
    "key (press ''x'') \<in> insertDeleteKeys"
    by (simp_all add: press_def pressAndType_def insertDeleteKeys_def)
  then have ks: "\<forall>inp \<in> set [press ''D'', pressAndType ''i'' ''c'', press ''x''].
      key inp \<in> insertDeleteKeys" by simp
  have one: "length (csvLines oneRowDocument) = 1"
    by (simp add: oneRowDocument_def startState_def)
  have kd: "key (press ''D'') = ''D''" by (simp add: press_def)
  from insert_delete_keep_rows_and_cells [OF oneRowDocument_invariant ks, of plainConfig]
    oneRowDocument_invariant k one kd
  show ?thesis by blast
qed


section \<open>Claim C10: the cursor column stays inside the cursor row\<close>

text \<open>
  Claim C10.  Let every row of the document, and every row still to be fetched, have at
  least one cell, and let the cursor column lie inside the cursor row.  Then no
  sequence of iterations panics (so the commands that index the cursor cell directly
  never read out of bounds), and at the start of every further iteration the column is
  again at least 0 and below the number of cells of the cursor row.
\<close>

theorem cursor_stays_inside_row:
  assumes inv: "loopInvariant s"
  shows "run cfg inps s \<noteq> Panicked \<and>
         (\<forall>s'. run cfg inps s = Continue s' \<longrightarrow>
            loopInvariant s' \<and> 0 \<le> cursorCol s' \<and>
            cursorCol s' < int (length (Cell (csvLines s' ! cursorRow s'))))"
  using run_endsWell [OF inv, of cfg inps]
  by (cases "run cfg inps s")
     (auto simp: loopInvariant_def cursorOK_def cursorInRow_def currentRow_def)

theorem cursor_stays_inside_row_witness:
  "loopInvariant oneRowDocument \<and>
   run plainConfig [press ''l'', press ''l'', press ''l'', press ''u'', press ''y'']
     oneRowDocument \<noteq> Panicked"
  using cursor_stays_inside_row [OF oneRowDocument_invariant] oneRowDocument_invariant
  by blast


section \<open>Claim C6: a cancelled text-entry dialog\<close>

text \<open>
  Claim C6, amended.  For the commands insert cell (\<open>i\<close>), append cell (\<open>a\<close>) and replace
  cell (\<open>r\<close>, \<open>R\<close>, F2), started with the cursor inside its row: if the text-entry dialog
  returns an error (it was cancelled), the iteration ends in the state it began in,
  except for the status message.  In particular the rows, their cells and the cursor
  column are as before: an aborted append removes the empty cell it had inserted and
  steps the column back.  (The commands new row after and before discard the dialog's
  error and keep the row they inserted; see the counterexample below.)
\<close>

theorem cancelled_cell_dialog_changes_nothing:
  assumes inv: "loopInvariant s"
    and k: "key inp \<in> {''i'', ''a'', ''r'', ''R'', keyF2}"
    and e: "snd (readLine inp) \<noteq> None"
  shows "\<exists>m. keyStep cfg inp s = Continue (s\<lparr>message := m\<rparr>)"
proof -
  from e obtain err where err: "snd (readLine inp) = Some err" by auto
  from k have "commandOf (key inp) \<in> {InsertCell, AppendCell, ReplaceCell}"
    using commandOf_keys by auto
  with inv err show ?thesis by (rule cancelled_dialog_step)
qed

theorem cancelled_cell_dialog_changes_nothing_witness:
  "loopInvariant oneRowDocument \<and> key (pressAndCancel ''a'') \<in> {''i'', ''a'', ''r'', ''R'', keyF2} \<and>
   snd (readLine (pressAndCancel ''a'')) \<noteq> None \<and>
   (\<exists>m. keyStep plainConfig (pressAndCancel ''a'') oneRowDocument
          = Continue (oneRowDocument\<lparr>message := m\<rparr>))"
proof -
  have k: "key (pressAndCancel ''a'') \<in> {''i'', ''a'', ''r'', ''R'', keyF2}"
    and e: "snd (readLine (pressAndCancel ''a'')) \<noteq> None"
    by (simp_all add: pressAndCancel_def)
  from cancelled_cell_dialog_changes_nothing [OF oneRowDocument_invariant k e, of plainConfig]
    oneRowDocument_invariant k e
  show ?thesis by blast
qed

text \<open>
  The claim as stated fails for the new-row commands: \<open>o\<close> with a cancelled dialog leaves
  a second row in the one-row document.
\<close>

theorem cancelled_new_row_stays_counterexample:
  "loopInvariant oneRowDocument \<and> snd (readLine (pressAndCancel ''o'')) = Some CtrlC \<and>
   (\<exists>s'. keyStep plainConfig (pressAndCancel ''o'') oneRowDocument = Continue s' \<and>
         length (csvLines s') = 2 \<and> csvLines s' \<noteq> csvLines oneRowDocument)"
proof -
  have "\<exists>s'. keyStep plainConfig (pressAndCancel ''o'') oneRowDocument = Continue s' \<and>
         length (csvLines s') = 2"
    by (simp add: keyStep_def dispatch_def commandOf_keys pressAndCancel_def cmdNewRowAfter_def
        checkWriteProtect_def plainConfig_def oneRowDocument_def startState_def decodedRow_def
        currentRow_def setCurrentRow_def LF_def NewRow_def modeOf_def commaMode_def padded_def
        InsertAfter_def fillNewRow_def validate_def replaceInCurrent_def Replace_def
        clampCursor_def Let_def)
  moreover have "length (csvLines oneRowDocument) = 1"
    by (simp add: oneRowDocument_def startState_def)
  ultimately show ?thesis
    using oneRowDocument_invariant by (auto simp: pressAndCancel_def)
qed


section \<open>Claim C9: only the last row has an empty terminator\<close>

text \<open>
  Claim C9, amended.  Let the mode's default terminator be non-empty.  Then each of the
  row commands \<open>o\<close>, \<open>O\<close> and \<open>D\<close>, started in a state of the loop in which only the last
  row may have an empty terminator, ends in such a state.  In detail: \<open>o\<close> on a last row
  with empty terminator appends a row that has the empty terminator and gives the
  former last row the default terminator; \<open>D\<close> on the last row gives the new last row the
  removed row's terminator.
\<close>

theorem row_commands_keep_terminators:
  assumes dt: "DefaultTerm (modeOf cfg) \<noteq> []"
    and inv: "loopInvariant s"
    and ok: "terminatorsOK (csvLines s)"
    and k: "key inp \<in> {''o'', ''O'', ''D''}"
  shows "(\<exists>s'. keyStep cfg inp s = Continue s' \<and> terminatorsOK (csvLines s')) \<and>
         (key inp = ''o'' \<and> checkWriteProtect cfg s = [] \<and>
          Suc (cursorRow s) = length (csvLines s) \<and> Term (currentRow s) = [] \<longrightarrow>
            (\<exists>s'. keyStep cfg inp s = Continue s' \<and>
                  length (csvLines s') = Suc (length (csvLines s)) \<and>
                  Term (last (csvLines s')) = [] \<and>
                  Term (csvLines s' ! cursorRow s) = DefaultTerm (modeOf cfg))) \<and>
         (key inp = ''D'' \<and> checkWriteProtect cfg s = [] \<and> 1 < length (csvLines s) \<and>
          Suc (cursorRow s) = length (csvLines s) \<longrightarrow>
            (\<exists>s'. keyStep cfg inp s = Continue s' \<and>
                  length (csvLines s') = length (csvLines s) - 1 \<and>
                  Term (last (csvLines s')) = Term (currentRow s)))"
proof -
  let ?s0 = "s\<lparr>message := []\<rparr>"
  have a0: "afterCommand ?s0" using loopInvariantD(1) [OF inv] by simp
  have ok0: "terminatorsOK (csvLines ?s0)" using ok by simp
  have cur0: "currentRow ?s0 = currentRow s" "cursorRow ?s0 = cursorRow s"
    "csvLines ?s0 = csvLines s" "checkWriteProtect cfg ?s0 = checkWriteProtect cfg s"
    by simp_all
  have first: "\<exists>s'. keyStep cfg inp s = Continue s' \<and> terminatorsOK (csvLines s')"
  proof -
    have "\<exists>s1. dispatch cfg inp ?s0 = Continue s1 \<and> terminatorsOK (csvLines s1)"
      using k newRowAfter_terminators [OF dt a0 ok0, of inp]
        newRowBefore_terminators [OF dt a0 ok0, of inp] deleteRow_terminators [OF a0 ok0, of cfg]
      by (auto simp: dispatch_def commandOf_keys)
    then obtain s1 where s1: "dispatch cfg inp ?s0 = Continue s1" "terminatorsOK (csvLines s1)"
      by blast
    from keyStep_rows [OF inv s1(1)] s1(2) show ?thesis by auto
  qed
  have second: "\<exists>s'. keyStep cfg inp s = Continue s' \<and>
                  length (csvLines s') = Suc (length (csvLines s)) \<and>
                  Term (last (csvLines s')) = [] \<and>
                  Term (csvLines s' ! cursorRow s) = DefaultTerm (modeOf cfg)"
    if h: "key inp = ''o''" "checkWriteProtect cfg s = []"
      "Suc (cursorRow s) = length (csvLines s)" "Term (currentRow s) = []"
  proof -
    from newRowAfter_last [OF a0, of cfg inp] h cur0
    obtain s1 where s1: "cmdNewRowAfter cfg inp ?s0 = Continue s1"
      "length (csvLines s1) = Suc (length (csvLines s))" "Term (last (csvLines s1)) = []"
      "Term (csvLines s1 ! cursorRow s) = DefaultTerm (modeOf cfg)" by auto
    then have "dispatch cfg inp ?s0 = Continue s1"
      using h(1) by (simp add: dispatch_def commandOf_keys)
    from keyStep_rows [OF inv this] s1 show ?thesis by auto
  qed
  have third: "\<exists>s'. keyStep cfg inp s = Continue s' \<and>
                  length (csvLines s') = length (csvLines s) - 1 \<and>
                  Term (last (csvLines s')) = Term (currentRow s)"
    if h: "key inp = ''D''" "checkWriteProtect cfg s = []" "1 < length (csvLines s)"
      "Suc (cursorRow s) = length (csvLines s)"
  proof -
    from deleteRow_last [OF a0, of cfg] h cur0
    obtain s1 where s1: "cmdDeleteRow cfg ?s0 = Continue s1"
      "length (csvLines s1) = length (csvLines s) - 1"
      "Term (last (csvLines s1)) = Term (currentRow s)" by auto
    then have "dispatch cfg inp ?s0 = Continue s1"
      using h(1) by (simp add: dispatch_def commandOf_keys)
    from keyStep_rows [OF inv this] s1 show ?thesis by auto
  qed
  from first second third show ?thesis by blast
qed

theorem row_commands_keep_terminators_witness:
  "DefaultTerm (modeOf plainConfig) \<noteq> [] \<and> loopInvariant unterminatedDocument \<and>
   terminatorsOK (csvLines unterminatedDocument) \<and>
   key (pressAndType ''o'' ''b'') \<in> {''o'', ''O'', ''D''} \<and>
   checkWriteProtect plainConfig unterminatedDocument = [] \<and>
   Suc (cursorRow unterminatedDocument) = length (csvLines unterminatedDocument) \<and>
   Term (currentRow unterminatedDocument) = [] \<and>
   (\<exists>s'. keyStep plainConfig (pressAndType ''o'' ''b'') unterminatedDocument = Continue s' \<and>
         terminatorsOK (csvLines s')) \<and>
   (\<exists>s'. keyStep plainConfig (pressAndType ''o'' ''b'') unterminatedDocument = Continue s' \<and>
         length (csvLines s') = Suc (length (csvLines unterminatedDocument)) \<and>
         Term (last (csvLines s')) = [] \<and>
         Term (csvLines s' ! cursorRow unterminatedDocument) = DefaultTerm (modeOf plainConfig))"
proof -
  have dt: "DefaultTerm (modeOf plainConfig) \<noteq> []"
    by (simp add: modeOf_def plainConfig_def commaMode_def)
  have k: "key (pressAndType ''o'' ''b'') \<in> {''o'', ''O'', ''D''}"
    and k': "key (pressAndType ''o'' ''b'') = ''o''"
    by (simp_all add: pressAndType_def)
  have h: "checkWriteProtect plainConfig unterminatedDocument = []"
    "Suc (cursorRow unterminatedDocument) = length (csvLines unterminatedDocument)"
    "Term (currentRow unterminatedDocument) = []"
    by (simp_all add: checkWriteProtect_def plainConfig_def unterminatedDocument_def
        startState_def currentRow_def decodedRow_def)
  from row_commands_keep_terminators
         [OF dt unterminatedDocument_invariant unterminatedDocument_terminators k]
    dt unterminatedDocument_invariant unterminatedDocument_terminators k k' h
  show ?thesis by blast
qed

text \<open>
  Without the condition the claim fails: with no mode configured the default terminator
  is empty, and \<open>o\<close> on the unterminated only row leaves two rows without terminator.
\<close>

theorem empty_default_terminator_counterexample:
  "DefaultTerm (modeOf modelessConfig) = [] \<and> loopInvariant unterminatedDocument \<and>
   terminatorsOK (csvLines unterminatedDocument) \<and>
   (\<exists>s'. keyStep modelessConfig (pressAndType ''o'' ''b'') unterminatedDocument = Continue s' \<and>
         length (csvLines s') = 2 \<and> Term (csvLines s' ! 0) = [] \<and>
         \<not> terminatorsOK (csvLines s'))"
proof -
  have "\<exists>s'. keyStep modelessConfig (pressAndType ''o'' ''b'') unterminatedDocument = Continue s' \<and>
         length (csvLines s') = 2 \<and> Term (csvLines s' ! 0) = []"
    by (simp add: keyStep_def dispatch_def commandOf_keys pressAndType_def cmdNewRowAfter_def
        checkWriteProtect_def plainConfig_def modelessConfig_def unterminatedDocument_def
        startState_def decodedRow_def
        currentRow_def setCurrentRow_def NewRow_def modeOf_def padded_def
        InsertAfter_def fillNewRow_def validate_def replaceInCurrent_def Replace_def
        clampCursor_def Let_def)
  then obtain s' where s': "keyStep modelessConfig (pressAndType ''o'' ''b'') unterminatedDocument = Continue s'"
    "length (csvLines s') = 2" "Term (csvLines s' ! 0) = []" by blast
  have "\<not> terminatorsOK (csvLines s')"
  proof
    assume "terminatorsOK (csvLines s')"
    then have "0 < length (csvLines s') \<longrightarrow> Term (csvLines s' ! 0) = [] \<longrightarrow>
        Suc 0 = length (csvLines s')"
      unfolding terminatorsOK_def by blast
    with s'(2,3) show False by simp
  qed
  with s' show ?thesis
    using unterminatedDocument_invariant unterminatedDocument_terminators
    by (auto simp: modeOf_def modelessConfig_def)
qed


section \<open>Claim C3: the write command reads all remaining rows first\<close>

text \<open>
  Claim C3.  Let the write command \<open>w\<close> be issued while the fetch source is not yet nil.
  Then either the source delivers an error other than end-of-input and \<^verbatim>\<open>edit\<close> returns
  that error without calling the write routine, or the rows of all deliveries up to and
  including the one that comes with end-of-input are appended to the document, and the
  write routine is then called once, on that fully materialized document.
\<close>

theorem write_reads_all_rows_first:
  assumes f: "fetch s = Some src" and k: "key inp = ''w''"
  shows "(\<exists>e n. dispatch cfg inp s = Failed e \<and> e \<noteq> EOF \<and> firstErrorAt n src e) \<or>
         (\<exists>s' n. dispatch cfg inp s = Continue s' \<and> firstErrorAt n src EOF \<and>
                 csvLines s' = csvLines s @ map fst (deliveries (Suc n) src) \<and>
                 writes s' = writes s @ [csvLines s'])"
proof (cases "drain src (csvLines s)")
  case (Inl e)
  then have "dispatch cfg inp s = Failed e"
    using f k by (simp add: dispatch_def commandOf_keys cmdWriteOut_def)
  with drain_Inl_deliveries [OF Inl] show ?thesis by blast
next
  case (Inr p)
  obtain src' rows' where p: "p = (src', rows')" by (cases p)
  let ?s' = "callWrite inp (s\<lparr>fetch := Some src', csvLines := rows'\<rparr>)"
  have "dispatch cfg inp s = Continue ?s'"
    using f k Inr p by (simp add: dispatch_def commandOf_keys cmdWriteOut_def)
  moreover have "csvLines ?s' = rows'" "writes ?s' = writes s @ [rows']"
    by (simp_all add: callWrite_def split: option.splits)
  moreover from drain_Inr_deliveries [OF Inr [unfolded p]]
  obtain n where "firstErrorAt n src EOF" "rows' = csvLines s @ map fst (deliveries (Suc n) src)"
    by blast
  ultimately show ?thesis by auto
qed

theorem write_reads_all_rows_first_witness:
  "fetch loadingDocument = Some oneLineLeft \<and> key (press ''w'') = ''w'' \<and>
   ((\<exists>e n. dispatch plainConfig (press ''w'') loadingDocument = Failed e \<and> e \<noteq> EOF \<and>
           firstErrorAt n oneLineLeft e) \<or>
    (\<exists>s' n. dispatch plainConfig (press ''w'') loadingDocument = Continue s' \<and>
            firstErrorAt n oneLineLeft EOF \<and>
            csvLines s' = csvLines loadingDocument @ map fst (deliveries (Suc n) oneLineLeft) \<and>
            writes s' = writes loadingDocument @ [csvLines s'])) \<and>
   (\<exists>s'. dispatch plainConfig (press ''w'') loadingDocument = Continue s' \<and>
         csvLines s' = [decodedRow [''x''] [LF], decodedRow [''y''] [LF], trailingRow] \<and>
         writes s' = [[decodedRow [''x''] [LF], decodedRow [''y''] [LF], trailingRow]])"
proof -
  have f: "fetch loadingDocument = Some oneLineLeft"
    by (simp add: loadingDocument_def startState_def)
  have k: "key (press ''w'') = ''w''" by (simp add: press_def)
  have "\<exists>s'. dispatch plainConfig (press ''w'') loadingDocument = Continue s' \<and>
         csvLines s' = [decodedRow [''x''] [LF], decodedRow [''y''] [LF], trailingRow] \<and>
         writes s' = [[decodedRow [''x''] [LF], decodedRow [''y''] [LF], trailingRow]]"
    by (simp add: dispatch_def commandOf_keys press_def cmdWriteOut_def loadingDocument_def
        startState_def oneLineLeft_def drain_Cons_None drain_Cons_EOF Push_def callWrite_def)
  with write_reads_all_rows_first [OF f k, of plainConfig] f k show ?thesis by blast
qed


section \<open>Claim C4: read-only mode and the quote toggle\<close>

text \<open>
  Claim C4 says that in read-only mode every mutating command is blocked with a status
  message and changes no cell.  The guarded commands are (lemma
  \<open>read_only_blocks_guarded_commands\<close>), but the case of the quote toggle does not call
  \<^verbatim>\<open>checkWriteProtect\<close>: in read-only mode the key \<open>"\<close> on the unquoted cell \<open>a\<close> turns the
  cell's quoted flag on and sets no message.
\<close>

theorem read_only_quote_toggle_changes_cell:
  "ReadOnly readOnlyConfig \<and> \<not> IsQuoted (Cell (csvLines oneRowDocument ! 0) ! 0) \<and>
   (\<exists>s'. keyStep readOnlyConfig (press [quoteChar]) oneRowDocument = Continue s' \<and>
         IsQuoted (Cell (csvLines s' ! 0) ! 0) \<and> message s' = [])"
  by (simp add: readOnlyConfig_def plainConfig_def oneRowDocument_def startState_def
      decodedRow_def decode_def quoteChar_def keyStep_def dispatch_def
      commandOf_keys [unfolded quoteChar_def] press_def
      cmdToggleQuote_def cursorInRow_def currentRow_def currentCell_def setCurrentCell_def
      setCurrentRow_def Quote_def clampCursor_def)


section \<open>Claim C5: the all-empty final row\<close>

text \<open>
  Claim C5 says that the all-empty final row of a trailing line terminator is dropped on
  every path that consumes the fetch source.  The initial prefetch and the idle-time
  step drop it, but the loop of the write command pushes every row it fetches: for an
  input of one hundred terminated lines the prefetch loads the hundred rows, an idle
  step would drop the final row, and the write command issued instead appends it to the
  document.
\<close>

theorem write_drain_keeps_trailing_empty_row:
  "isEmptyRow trailingRow \<and>
   (\<exists>s. openDocument plainConfig (Some hundredLines) = Inr s \<and>
        csvLines s = replicate 100 (decodedRow [''x''] [LF]) \<and>
        csvLines (GetOr 1 s) = replicate 100 (decodedRow [''x''] [LF]) \<and>
        (\<exists>s'. dispatch plainConfig (press ''w'') s = Continue s' \<and>
              csvLines s' = replicate 100 (decodedRow [''x''] [LF]) @ [trailingRow])) \<and>
   openDocument plainConfig (Some oneLineLeft)
     = Inr (startState [decodedRow [''y''] [LF]] None)"
proof -
  let ?s = "startState (replicate 100 (decodedRow [''x''] [LF]))
              (Some \<lparr>pending = [(trailingRow, Some EOF)], atEnd = trailingRow\<rparr>)"
  have idle: "csvLines (GetOr 1 ?s) = replicate 100 (decodedRow [''x''] [LF])"
    using trailingRow_empty
    by (simp add: idleFetch_def startState_def fetchCall_def)
  have w: "\<exists>s'. dispatch plainConfig (press ''w'') ?s = Continue s' \<and>
              csvLines s' = replicate 100 (decodedRow [''x''] [LF]) @ [trailingRow]"
    by (simp add: dispatch_def commandOf_keys press_def cmdWriteOut_def startState_def
        drain_Cons_EOF Push_def callWrite_def)
  from open_hundredLines idle w trailingRow_empty open_oneLineLeft show ?thesis
    by (simp add: startState_def)
qed


end
